theory Spec2Isabelle
  imports Main "HOL-Library.Char_ord" "HOL-Library.List_Lexorder" "HOL-Library.AList"
begin

section \<open>Syntax trees\<close>

text \<open>
  The rules read only a few facts of a TypeScript syntax tree: the kind of a node, the
  text of an import's module specifier (when it is a string literal), the name of a
  function, the kind of an if statement's test expression, the start offset of a node
  and its children in the order \<open>ts.forEachChild\<close> visits them.  A function
  expression carries its own optional name; an arrow function has none of its own, the
  model records the name of the variable it is bound to.  An import declaration carries
  the text of its module specifier when that is a string literal, and its import clause.
\<close>

datatype namedBindings = NamespaceImport string | NamedImports "string list"

datatype importClause =
  ImportClause (clauseIsTypeOnly: bool) (clauseNamedBindings: "namedBindings option")
    (clauseName: "string option")

datatype exprKind = Identifier | PropertyAccessExpression | BinaryExpression | OtherExpression

datatype syntaxKind =
    SourceFile
  | ImportDeclaration "string option" "importClause option"
  | FunctionDeclaration "string option"
  | FunctionExpression "string option"
  | ArrowFunction "string option"
  | ForStatement
  | ForInStatement
  | ForOfStatement
  | IfStatement exprKind
  | OtherKind

datatype node = Node (kind: syntaxKind) (getStart: nat) (children: "node list")

fun isFunctionDeclaration :: "node \<Rightarrow> bool" where
  "isFunctionDeclaration (Node (FunctionDeclaration _) _ _) = True"
| "isFunctionDeclaration _ = False"

fun isFunctionExpression :: "node \<Rightarrow> bool" where
  "isFunctionExpression (Node (FunctionExpression _) _ _) = True"
| "isFunctionExpression _ = False"

fun isArrowFunction :: "node \<Rightarrow> bool" where
  "isArrowFunction (Node (ArrowFunction _) _ _) = True"
| "isArrowFunction _ = False"

section \<open>Strings\<close>

text \<open>
  File paths, layer names and identifiers are strings of 8-bit characters.  Case
  conversion is modelled on ASCII, where \<open>toUpperCase\<close> maps \<open>a..z\<close> to \<open>A..Z\<close> and
  leaves every other character as it is; statements about it are restricted to ASCII
  characters.
\<close>

definition is_ascii :: "char \<Rightarrow> bool" where
  "is_ascii c = ((of_char c :: nat) < 128)"

definition is_lowercase_letter :: "char \<Rightarrow> bool" where
  "is_lowercase_letter c = (c \<in> set ''abcdefghijklmnopqrstuvwxyz'')"

definition toUpperCase_char :: "char \<Rightarrow> char" where
  "toUpperCase_char c =
     (case map_of (zip ''abcdefghijklmnopqrstuvwxyz'' ''ABCDEFGHIJKLMNOPQRSTUVWXYZ'') c of
        Some u \<Rightarrow> u
      | None \<Rightarrow> c)"

definition toUpperCase :: "string \<Rightarrow> string" where
  "toUpperCase s = map toUpperCase_char s"

definition startsWith :: "string \<Rightarrow> string \<Rightarrow> bool" where
  "startsWith s p = (take (length p) s = p)"

section \<open>Component classifier\<close>

text \<open>
  \<open>isComponentFunction\<close>: the node must be a function declaration, a function
  expression or an arrow function; the name is read only from a function declaration
  (\<open>null\<close> otherwise); a non-empty name qualifies when its first character equals its
  own upper-case form or the name starts with \<open>use\<close>.
\<close>

definition functionName :: "node \<Rightarrow> string option" where
  "functionName n = (case kind n of FunctionDeclaration (Some nm) \<Rightarrow> Some nm | _ \<Rightarrow> None)"

definition isComponentFunction :: "node \<Rightarrow> bool" where
  "isComponentFunction n =
     (if \<not> isFunctionDeclaration n \<and> \<not> isFunctionExpression n \<and> \<not> isArrowFunction n
      then False
      else (case functionName n of
              None \<Rightarrow> False
            | Some nm \<Rightarrow>
                (if nm \<noteq> [] \<and> ([hd nm] = toUpperCase [hd nm] \<or> startsWith nm ''use'')
                 then True else False)))"

section \<open>Configuration documents\<close>

text \<open>
  \<open>validateArchitectureConfig\<close> receives whatever the YAML parser produced (\<open>any\<close>),
  and hands the toggles and the \<open>allowedImports\<close> arrays on without checking their
  elements.  The model therefore keeps JavaScript values: numbers are integers here
  (only their truthiness and decimal text are read; the decimal text is that of
  JavaScript for integers below \<open>10^21\<close> that a double holds exactly), an object is
  the list of its own properties in the order \<open>Object.keys\<close> and \<open>Object.entries\<close>
  enumerate them, with distinct keys.  Property names to which \<open>Object.prototype\<close> gives
  a meaning of its own, such as \<open>__proto__\<close>, are outside the model.
\<close>

datatype jsval =
    JUndefined
  | JNull
  | JBool bool
  | JNum int
  | JStr string
  | JArr "jsval list"
  | JObj "(string \<times> jsval) list"

fun truthy :: "jsval \<Rightarrow> bool" where
  "truthy JUndefined = False"
| "truthy JNull = False"
| "truthy (JBool b) = b"
| "truthy (JNum n) = (n \<noteq> 0)"
| "truthy (JStr s) = (s \<noteq> [])"
| "truthy (JArr _) = True"
| "truthy (JObj _) = True"

fun typeof_object :: "jsval \<Rightarrow> bool" where
  "typeof_object JNull = True"
| "typeof_object (JArr _) = True"
| "typeof_object (JObj _) = True"
| "typeof_object _ = False"

fun nullish :: "jsval \<Rightarrow> bool" where
  "nullish JUndefined = True"
| "nullish JNull = True"
| "nullish _ = False"

text \<open>
  Reading a named property.  The code reads only \<open>layers\<close>, \<open>rules\<close>, \<open>allowedImports\<close>
  and the four toggle names, none of which an array, a string, a number or a boolean
  has: there the read gives \<open>undefined\<close>.  (The code never reads a property of \<open>null\<close>
  or \<open>undefined\<close>: each read is behind a truthiness test.)
\<close>

fun getProp :: "jsval \<Rightarrow> string \<Rightarrow> jsval" where
  "getProp (JObj kvs) k = (case map_of kvs k of Some v \<Rightarrow> v | None \<Rightarrow> JUndefined)"
| "getProp _ k = JUndefined"

fun digit_char :: "nat \<Rightarrow> char" where
  "digit_char n = (''0123456789'' ! (n mod 10))"

fun decimalOfNat :: "nat \<Rightarrow> string" where
  "decimalOfNat n =
     (if 10 \<le> n then decimalOfNat (n div 10) @ [digit_char n] else [digit_char n])"

definition decimalOfInt :: "int \<Rightarrow> string" where
  "decimalOfInt i =
     (if 0 \<le> i then decimalOfNat (nat i) else CHR ''-'' # decimalOfNat (nat (- i)))"

fun objectEntries :: "jsval \<Rightarrow> (string \<times> jsval) list" where
  "objectEntries (JObj kvs) = kvs"
| "objectEntries (JArr xs) = zip (map decimalOfNat [0..<length xs]) xs"
| "objectEntries _ = []"

fun join :: "string \<Rightarrow> string list \<Rightarrow> string" where
  "join sep [] = []"
| "join sep [x] = x"
| "join sep (x # y # ys) = x @ sep @ join sep (y # ys)"

text \<open>\<open>ToString\<close>, and the text \<open>Array.prototype.join\<close> gives an element (\<open>null\<close> and
  \<open>undefined\<close> are empty there).\<close>

fun jsToString :: "jsval \<Rightarrow> string"
  and joinElement :: "jsval \<Rightarrow> string"
  and joinElements :: "jsval list \<Rightarrow> string list" where
  "jsToString JUndefined = ''undefined''"
| "jsToString JNull = ''null''"
| "jsToString (JBool b) = (if b then ''true'' else ''false'')"
| "jsToString (JNum n) = decimalOfInt n"
| "jsToString (JStr s) = s"
| "jsToString (JArr xs) = join '','' (joinElements xs)"
| "jsToString (JObj _) = ''[object Object]''"
| "joinElement JUndefined = []"
| "joinElement JNull = []"
| "joinElement (JBool b) = jsToString (JBool b)"
| "joinElement (JNum n) = jsToString (JNum n)"
| "joinElement (JStr s) = jsToString (JStr s)"
| "joinElement (JArr xs) = jsToString (JArr xs)"
| "joinElement (JObj kvs) = jsToString (JObj kvs)"
| "joinElements [] = []"
| "joinElements (x # xs) = joinElement x # joinElements xs"

record LayerConfig =
  allowedImports :: "jsval list"

record RuleToggles =
  noBusinessLogicInComponents :: jsval
  noDataFetchingInUI :: jsval
  enforceFeatureBoundaries :: jsval
  noCircularLayerDeps :: jsval

record ArchitectureConfig =
  layers :: "(string \<times> LayerConfig) list"
  rules :: RuleToggles

datatype configError =
    ConfigNotObject
  | LayersNotObject
  | LayerNotObject string
  | AllowedImportsNotArray string

fun validateLayers ::
  "(string \<times> jsval) list \<Rightarrow> (string \<times> LayerConfig) list \<Rightarrow>
   configError + (string \<times> LayerConfig) list" where
  "validateLayers [] acc = Inr acc"
| "validateLayers ((layerName, layerConfig) # rest) acc =
     (if \<not> truthy layerConfig \<or> \<not> typeof_object layerConfig
      then Inl (LayerNotObject layerName)
      else (case getProp layerConfig ''allowedImports'' of
              JArr xs \<Rightarrow>
                validateLayers rest
                  (AList.update layerName \<lparr>allowedImports = xs\<rparr> acc)
            | _ \<Rightarrow> Inl (AllowedImportsNotArray layerName)))"

definition toggleOrFalse :: "jsval \<Rightarrow> string \<Rightarrow> jsval" where
  "toggleOrFalse r k = (if nullish (getProp r k) then JBool False else getProp r k)"

definition validateArchitectureConfig :: "jsval \<Rightarrow> configError + ArchitectureConfig" where
  "validateArchitectureConfig config =
     (if \<not> truthy config \<or> \<not> typeof_object config then Inl ConfigNotObject
      else if \<not> truthy (getProp config ''layers'') \<or> \<not> typeof_object (getProp config ''layers'')
      then Inl LayersNotObject
      else (case validateLayers (objectEntries (getProp config ''layers'')) [] of
              Inl e \<Rightarrow> Inl e
            | Inr ls \<Rightarrow>
                (let r = (if truthy (getProp config ''rules'') then getProp config ''rules''
                          else JObj [])
                 in Inr \<lparr>layers = ls,
                         rules = \<lparr>noBusinessLogicInComponents =
                                    toggleOrFalse r ''noBusinessLogicInComponents'',
                                  noDataFetchingInUI = toggleOrFalse r ''noDataFetchingInUI'',
                                  enforceFeatureBoundaries =
                                    toggleOrFalse r ''enforceFeatureBoundaries'',
                                  noCircularLayerDeps =
                                    toggleOrFalse r ''noCircularLayerDeps''\<rparr>\<rparr>)))"

section \<open>Rule contract\<close>

record Violation =
  file_name :: string
  line :: nat
  column :: nat
  message :: string
  rule :: string

record RuleResult =
  violations :: "Violation list"
  passed :: bool

record ImportInfo =
  from_module :: string
  specifiers :: "string list"
  isTypeOnly :: bool

type_synonym ImportGraph = "(string \<times> string list) list"

record RuleContext =
  filePath :: string
  sourceCode :: string
  ast :: node
  importList :: "ImportInfo list"
  architecture :: ArchitectureConfig
  importGraph :: "ImportGraph option"

record Rule =
  ruleName :: string
  description :: string
  execute :: "RuleContext \<Rightarrow> RuleResult"

text \<open>
  What the rules take from outside the repository: the TypeScript compiler
  (\<open>ts.createSourceFile\<close>, \<open>getLineAndCharacterOfPosition\<close> of a source file), Node's
  \<open>path.resolve(path.dirname(fromFile), importPath)\<close> and the regular-expression
  engine (\<open>matchAll\<close>: the start offsets of the matches of one of the eight fixed
  patterns).  They are deterministic functions of their arguments and are parameters of
  the model.
\<close>

datatype fetchPattern =
    FetchCall
  | AxiosDot
  | GetCall
  | PostCall
  | PutCall
  | DeleteCall
  | UseEffectFetch
  | UseEffectAxios

record platform =
  createSourceFile :: "string \<Rightarrow> string \<Rightarrow> node"
  getLineAndCharacterOfPosition :: "node \<Rightarrow> nat \<Rightarrow> nat \<times> nat"
  resolveFromFile :: "string \<Rightarrow> string \<Rightarrow> string"
  matchAll :: "fetchPattern \<Rightarrow> string \<Rightarrow> nat list"

definition parseTypeScript :: "platform \<Rightarrow> string \<Rightarrow> string \<Rightarrow> node" where
  "parseTypeScript P src fileName = createSourceFile P fileName src"

definition emptyResult :: RuleResult where
  "emptyResult = \<lparr>violations = [], passed = True\<rparr>"

definition resultOf :: "Violation list \<Rightarrow> RuleResult" where
  "resultOf vs = \<lparr>violations = vs, passed = (length vs = 0)\<rparr>"

section \<open>Import extraction\<close>

definition importInfoOf :: "string \<Rightarrow> importClause option \<Rightarrow> ImportInfo" where
  "importInfoOf from_text clause =
     (case clause of
        None \<Rightarrow> \<lparr>from_module = from_text, specifiers = [], isTypeOnly = False\<rparr>
      | Some (ImportClause typeOnly bindings default_name) \<Rightarrow>
          \<lparr>from_module = from_text,
           specifiers =
             (case bindings of
                None \<Rightarrow> []
              | Some (NamespaceImport n) \<Rightarrow> [n]
              | Some (NamedImports ns) \<Rightarrow> ns)
             @ (case default_name of None \<Rightarrow> [] | Some n \<Rightarrow> [n]),
           isTypeOnly = typeOnly\<rparr>)"

fun extractImports_visit :: "node \<Rightarrow> ImportInfo list \<Rightarrow> ImportInfo list"
  and extractImports_children :: "node list \<Rightarrow> ImportInfo list \<Rightarrow> ImportInfo list" where
  "extractImports_visit (Node k p cs) acc =
     extractImports_children cs
       (case k of
          ImportDeclaration (Some from_text) clause \<Rightarrow> acc @ [importInfoOf from_text clause]
        | _ \<Rightarrow> acc)"
| "extractImports_children [] acc = acc"
| "extractImports_children (c # cs) acc =
     extractImports_children cs (extractImports_visit c acc)"

definition extractImports :: "node \<Rightarrow> ImportInfo list" where
  "extractImports sourceFile = extractImports_visit sourceFile []"

section \<open>Layer resolver\<close>

fun includes_str :: "string \<Rightarrow> string \<Rightarrow> bool" where
  "includes_str [] p = (p = [])"
| "includes_str (c # cs) p = (startsWith (c # cs) p \<or> includes_str cs p)"

definition backslash :: char where
  "backslash = CHR 0x5C"

definition normalizeSeparators :: "string \<Rightarrow> string" where
  "normalizeSeparators p = map (\<lambda>c. if c = backslash then CHR ''/'' else c) p"

fun detectLayer_loop :: "string \<Rightarrow> string list \<Rightarrow> string option" where
  "detectLayer_loop normalizedPath [] = None"
| "detectLayer_loop normalizedPath (layerName # rest) =
     (if includes_str normalizedPath (''/'' @ layerName @ ''/'')
         \<or> includes_str normalizedPath ([backslash] @ layerName @ [backslash])
      then Some layerName
      else detectLayer_loop normalizedPath rest)"

definition detectLayerFromPath :: "string \<Rightarrow> (string \<times> 'a) list \<Rightarrow> string option" where
  "detectLayerFromPath path_text layer_map =
     detectLayer_loop (normalizeSeparators path_text) (map fst layer_map)"

definition detectLayerFromImportPath ::
  "platform \<Rightarrow> string \<Rightarrow> string \<Rightarrow> (string \<times> 'a) list \<Rightarrow> string option" where
  "detectLayerFromImportPath P importPath fromFile layer_map =
     detectLayerFromPath (resolveFromFile P fromFile importPath) layer_map"

definition isRelativeImport :: "string \<Rightarrow> bool" where
  "isRelativeImport importPath = (startsWith importPath ''.'' \<or> startsWith importPath ''/'')"

text \<open>
  \<open>findImportNode\<close>: a matching import declaration is stored and its children are not
  visited; the traversal of its siblings goes on (the callback returns nothing, so
  \<open>forEachChild\<close> does not stop), and a later match replaces the stored one.
\<close>

fun findImportNode_visit :: "string \<Rightarrow> node \<Rightarrow> node option \<Rightarrow> node option"
  and findImportNode_children :: "string \<Rightarrow> node list \<Rightarrow> node option \<Rightarrow> node option" where
  "findImportNode_visit importPath (Node k p cs) found =
     (case k of
        ImportDeclaration (Some t) clause \<Rightarrow>
          (if t = importPath then Some (Node k p cs)
           else findImportNode_children importPath cs found)
      | _ \<Rightarrow> findImportNode_children importPath cs found)"
| "findImportNode_children importPath [] found = found"
| "findImportNode_children importPath (c # cs) found =
     findImportNode_children importPath cs (findImportNode_visit importPath c found)"

definition findImportNode :: "node \<Rightarrow> string \<Rightarrow> node option" where
  "findImportNode sourceFile importPath = findImportNode_visit importPath sourceFile None"

section \<open>Rule layer-import-boundary\<close>

definition quoted :: "string \<Rightarrow> string" where
  "quoted s = [CHR 0x27] @ s @ [CHR 0x27]"

definition allowedListText :: "jsval list \<Rightarrow> string" where
  "allowedListText allowed =
     (if length allowed > 0 then join '', '' (joinElements allowed) else ''none'')"

definition boundaryMessage :: "string \<Rightarrow> string \<Rightarrow> jsval list \<Rightarrow> string" where
  "boundaryMessage layerName importedLayer allowed =
     ''Layer '' @ quoted layerName @ '' cannot import from '' @ quoted importedLayer
     @ ''. Import from allowed layers only: '' @ allowedListText allowed
     @ ''. Move the imported code to an allowed layer or restructure dependencies.''"

definition boundaryCheckImport ::
  "platform \<Rightarrow> RuleContext \<Rightarrow> string \<Rightarrow> LayerConfig \<Rightarrow> ImportInfo \<Rightarrow>
   Violation list \<Rightarrow> Violation list" where
  "boundaryCheckImport P ctx layerName layerConfig imp vs =
     (if isRelativeImport (from_module imp) then
        (case detectLayerFromImportPath P (from_module imp) (filePath ctx)
                (layers (architecture ctx)) of
           None \<Rightarrow> vs
         | Some importedLayer \<Rightarrow>
             (if importedLayer \<noteq> [] \<and> importedLayer \<noteq> layerName then
                (if JStr importedLayer \<notin> set (allowedImports layerConfig) then
                   (let sourceFile = parseTypeScript P (sourceCode ctx) (filePath ctx) in
                    case findImportNode sourceFile (from_module imp) of
                      None \<Rightarrow> vs
                    | Some importNode \<Rightarrow>
                        (case getLineAndCharacterOfPosition P sourceFile (getStart importNode) of
                           (ln, character) \<Rightarrow>
                             vs @ [\<lparr>file_name = filePath ctx, line = ln + 1, column = character + 1,
                                    message = boundaryMessage layerName importedLayer
                                                (allowedImports layerConfig),
                                    rule = ''layer-import-boundary''\<rparr>]))
                 else vs)
              else vs))
      else vs)"

fun boundaryLoop ::
  "platform \<Rightarrow> RuleContext \<Rightarrow> string \<Rightarrow> LayerConfig \<Rightarrow> ImportInfo list \<Rightarrow>
   Violation list \<Rightarrow> Violation list" where
  "boundaryLoop P ctx layerName layerConfig [] vs = vs"
| "boundaryLoop P ctx layerName layerConfig (imp # rest) vs =
     boundaryLoop P ctx layerName layerConfig rest
       (boundaryCheckImport P ctx layerName layerConfig imp vs)"

definition layerImportBoundary_execute :: "platform \<Rightarrow> RuleContext \<Rightarrow> RuleResult" where
  "layerImportBoundary_execute P ctx =
     (if \<not> truthy (enforceFeatureBoundaries (rules (architecture ctx))) then emptyResult
      else (case detectLayerFromPath (filePath ctx) (layers (architecture ctx)) of
              None \<Rightarrow> emptyResult
            | Some layerName \<Rightarrow>
                (if layerName = [] then emptyResult
                 else (case map_of (layers (architecture ctx)) layerName of
                         None \<Rightarrow> emptyResult
                       | Some layerConfig \<Rightarrow>
                           resultOf (boundaryLoop P ctx layerName layerConfig
                                       (importList ctx) [])))))"

definition createLayerImportBoundaryRule :: "platform \<Rightarrow> Rule" where
  "createLayerImportBoundaryRule P =
     \<lparr>ruleName = ''layer-import-boundary'',
      description = ''Enforces layer import boundaries'',
      execute = layerImportBoundary_execute P\<rparr>"

section \<open>Component files and the heuristic detectors\<close>

fun isReactComponentFile_visit :: "node \<Rightarrow> bool \<times> bool \<Rightarrow> bool \<times> bool"
  and isReactComponentFile_children :: "node list \<Rightarrow> bool \<times> bool \<Rightarrow> bool \<times> bool" where
  "isReactComponentFile_visit (Node k p cs) (hasReactImport, hasComponent) =
     isReactComponentFile_children cs
       ((case k of
           ImportDeclaration (Some t) clause \<Rightarrow> (if t = ''react'' then True else hasReactImport)
         | _ \<Rightarrow> hasReactImport),
        (if (isFunctionDeclaration (Node k p cs) \<or> isFunctionExpression (Node k p cs)
               \<or> isArrowFunction (Node k p cs))
            \<and> isComponentFunction (Node k p cs)
         then True else hasComponent))"
| "isReactComponentFile_children [] flags = flags"
| "isReactComponentFile_children (c # cs) flags =
     isReactComponentFile_children cs (isReactComponentFile_visit c flags)"

definition isReactComponentFile :: "node \<Rightarrow> bool" where
  "isReactComponentFile sourceFile =
     (case isReactComponentFile_visit sourceFile (False, False) of
        (hasReactImport, hasComponent) \<Rightarrow> hasReactImport \<and> hasComponent)"

fun isLoopStatement :: "syntaxKind \<Rightarrow> bool" where
  "isLoopStatement ForStatement = True"
| "isLoopStatement ForInStatement = True"
| "isLoopStatement ForOfStatement = True"
| "isLoopStatement _ = False"

fun isSimpleConditional :: "exprKind \<Rightarrow> bool" where
  "isSimpleConditional Identifier = True"
| "isSimpleConditional PropertyAccessExpression = True"
| "isSimpleConditional BinaryExpression = True"
| "isSimpleConditional OtherExpression = False"

definition violationAt ::
  "platform \<Rightarrow> node \<Rightarrow> string \<Rightarrow> nat \<Rightarrow> string \<Rightarrow> string \<Rightarrow> Violation" where
  "violationAt P sourceFile path_text pos msg rule_id =
     (case getLineAndCharacterOfPosition P sourceFile pos of
        (ln, character) \<Rightarrow>
          \<lparr>file_name = path_text, line = ln + 1, column = character + 1, message = msg,
           rule = rule_id\<rparr>)"

definition loopMessage :: string where
  "loopMessage = ''Loop detected in UI component. Extract loop logic to a utility function in features/domain layer and pass processed data as props.''"

definition conditionalMessage :: string where
  "conditionalMessage = ''Complex conditional in UI component. Extract to a custom hook (e.g. useConditionalLogic) in features layer or move to domain utilities.''"

fun checkForBusinessLogic_visit ::
  "platform \<Rightarrow> node \<Rightarrow> string \<Rightarrow> node \<Rightarrow> Violation list \<Rightarrow> Violation list"
  and checkForBusinessLogic_children ::
  "platform \<Rightarrow> node \<Rightarrow> string \<Rightarrow> node list \<Rightarrow> Violation list \<Rightarrow> Violation list" where
  "checkForBusinessLogic_visit P sourceFile path_text (Node k p cs) vs =
     checkForBusinessLogic_children P sourceFile path_text cs
       ((if isLoopStatement k
         then vs @ [violationAt P sourceFile path_text p loopMessage
                      ''no-business-logic-in-components'']
         else vs)
        @ (case k of
             IfStatement e \<Rightarrow>
               (if \<not> isSimpleConditional e
                then [violationAt P sourceFile path_text p conditionalMessage
                        ''no-business-logic-in-components'']
                else [])
           | _ \<Rightarrow> []))"
| "checkForBusinessLogic_children P sourceFile path_text [] vs = vs"
| "checkForBusinessLogic_children P sourceFile path_text (c # cs) vs =
     checkForBusinessLogic_children P sourceFile path_text cs
       (checkForBusinessLogic_visit P sourceFile path_text c vs)"

fun businessLogic_visit ::
  "platform \<Rightarrow> node \<Rightarrow> string \<Rightarrow> node \<Rightarrow> Violation list \<Rightarrow> Violation list"
  and businessLogic_children ::
  "platform \<Rightarrow> node \<Rightarrow> string \<Rightarrow> node list \<Rightarrow> Violation list \<Rightarrow> Violation list" where
  "businessLogic_visit P sourceFile path_text (Node k p cs) vs =
     businessLogic_children P sourceFile path_text cs
       (if isComponentFunction (Node k p cs)
        then checkForBusinessLogic_visit P sourceFile path_text (Node k p cs) vs
        else vs)"
| "businessLogic_children P sourceFile path_text [] vs = vs"
| "businessLogic_children P sourceFile path_text (c # cs) vs =
     businessLogic_children P sourceFile path_text cs
       (businessLogic_visit P sourceFile path_text c vs)"

definition businessLogicInComponents_execute :: "platform \<Rightarrow> RuleContext \<Rightarrow> RuleResult" where
  "businessLogicInComponents_execute P ctx =
     (if \<not> truthy (noBusinessLogicInComponents (rules (architecture ctx))) then emptyResult
      else (let sourceFile = parseTypeScript P (sourceCode ctx) (filePath ctx) in
            if \<not> isReactComponentFile sourceFile then emptyResult
            else resultOf (businessLogic_visit P sourceFile (filePath ctx) sourceFile [])))"

definition createBusinessLogicInComponentsRule :: "platform \<Rightarrow> Rule" where
  "createBusinessLogicInComponentsRule P =
     \<lparr>ruleName = ''no-business-logic-in-components'',
      description = ''Detects business logic inside React components'',
      execute = businessLogicInComponents_execute P\<rparr>"

definition forbiddenPatterns :: "fetchPattern list" where
  "forbiddenPatterns =
     [FetchCall, AxiosDot, GetCall, PostCall, PutCall, DeleteCall, UseEffectFetch,
      UseEffectAxios]"

definition dataFetchingMessage :: string where
  "dataFetchingMessage = ''Data fetching in UI component violates architecture. Create a custom hook in the features layer (e.g. useUserData) and call it from the component.''"

definition dataFetchingInUI_execute :: "platform \<Rightarrow> RuleContext \<Rightarrow> RuleResult" where
  "dataFetchingInUI_execute P ctx =
     (if \<not> truthy (noDataFetchingInUI (rules (architecture ctx))) then emptyResult
      else (let sourceFile = parseTypeScript P (sourceCode ctx) (filePath ctx) in
            if \<not> isReactComponentFile sourceFile then emptyResult
            else resultOf
                   (concat
                      (map (\<lambda>pattern.
                              map (\<lambda>index.
                                     violationAt P sourceFile (filePath ctx) index
                                       dataFetchingMessage ''no-data-fetching-in-ui'')
                                (matchAll P pattern (sourceCode ctx)))
                         forbiddenPatterns))))"

definition createDataFetchingInUIRule :: "platform \<Rightarrow> Rule" where
  "createDataFetchingInUIRule P =
     \<lparr>ruleName = ''no-data-fetching-in-ui'',
      description = ''Prevents data fetching inside UI components'',
      execute = dataFetchingInUI_execute P\<rparr>"

section \<open>Cycle detector\<close>

text \<open>
  \<open>detectCycles\<close> keeps four mutable values: the cycles found, the visited set, the
  recursion stack as a set and the current path.  \<open>dfs\<close> marks the node and processes its
  neighbours in order; \<open>graph[node] || []\<close> is the empty list for a node that is not a
  key of the graph.
\<close>

record dfsState =
  cycles :: "string list list"
  visited :: "string set"
  recStack :: "string set"
  path :: "string list"

definition neighbors :: "ImportGraph \<Rightarrow> string \<Rightarrow> string list" where
  "neighbors graph n = (case map_of graph n of Some ns \<Rightarrow> ns | None \<Rightarrow> [])"

fun indexOf :: "string list \<Rightarrow> string \<Rightarrow> nat option" where
  "indexOf [] x = None"
| "indexOf (y # ys) x = (if y = x then Some 0 else map_option Suc (indexOf ys x))"

definition enter :: "string \<Rightarrow> dfsState \<Rightarrow> dfsState" where
  "enter n s = s\<lparr>visited := insert n (visited s), recStack := insert n (recStack s),
                 path := path s @ [n]\<rparr>"

definition leave :: "string \<Rightarrow> dfsState \<Rightarrow> dfsState" where
  "leave n s = s\<lparr>recStack := recStack s - {n}, path := butlast (path s)\<rparr>"

definition recordCycle :: "string \<Rightarrow> dfsState \<Rightarrow> dfsState" where
  "recordCycle neighbor s =
     (case indexOf (path s) neighbor of
        None \<Rightarrow> s
      | Some cycleStart \<Rightarrow> s\<lparr>cycles := cycles s @ [drop cycleStart (path s) @ [neighbor]]\<rparr>)"

definition nodesOf :: "ImportGraph \<Rightarrow> string set" where
  "nodesOf graph = set (map fst graph) \<union> (\<Union>e \<in> set graph. set (snd e))"

function dfs :: "ImportGraph \<Rightarrow> string \<Rightarrow> dfsState \<Rightarrow> dfsState"
  and dfsNeighbors :: "ImportGraph \<Rightarrow> string list \<Rightarrow> dfsState \<Rightarrow> dfsState" where
  "dfs graph n s = leave n (dfsNeighbors graph (neighbors graph n) (enter n s))"
| "dfsNeighbors graph [] s = s"
| "dfsNeighbors graph (neighbor # rest) s =
     (if neighbor \<notin> visited s then dfsNeighbors graph rest (dfs graph neighbor s)
      else if neighbor \<in> recStack s then dfsNeighbors graph rest (recordCycle neighbor s)
      else dfsNeighbors graph rest s)"
  by pat_completeness auto

lemma visited_recordCycle [simp]: "visited (recordCycle n s) = visited s"
  by (simp add: recordCycle_def split: option.splits)

lemma visited_leave [simp]: "visited (leave n s) = visited s"
  by (simp add: leave_def)

lemma visited_enter [simp]: "visited (enter n s) = insert n (visited s)"
  by (simp add: enter_def)

lemma dfs_visited_mono_dom:
  "dfs_dfsNeighbors_dom (Inl (graph, n, s)) \<Longrightarrow> visited s \<subseteq> visited (dfs graph n s)"
  "dfs_dfsNeighbors_dom (Inr (graph, ns, s)) \<Longrightarrow> visited s \<subseteq> visited (dfsNeighbors graph ns s)"
proof (induction graph n s and graph ns s rule: dfs_dfsNeighbors.pinduct)
  case (1 graph n s)
  then show ?case by (auto simp: dfs.psimps)
next
  case (2 graph s)
  then show ?case by (simp add: dfsNeighbors.psimps)
next
  case (3 graph neighbor rest s)
  then show ?case by (auto simp: dfsNeighbors.psimps split: if_splits)
qed

lemma neighbors_nodesOf: "set (neighbors graph n) \<subseteq> nodesOf graph"
proof
  fix x assume "x \<in> set (neighbors graph n)"
  then obtain ns where "map_of graph n = Some ns" "x \<in> set ns"
    by (cases "map_of graph n") (auto simp: neighbors_def)
  then have "(n, ns) \<in> set graph" by (simp add: map_of_SomeD)
  with \<open>x \<in> set ns\<close> show "x \<in> nodesOf graph"
    by (force simp: nodesOf_def)
qed

lemma finite_nodesOf [simp]: "finite (nodesOf graph)"
  by (simp add: nodesOf_def)

definition dfs_measure :: "(ImportGraph \<times> string \<times> dfsState) + (ImportGraph \<times> string list \<times> dfsState) \<Rightarrow> nat \<times> nat \<times> nat" where
  "dfs_measure x = (case x of
      Inl (graph, n, s) \<Rightarrow> (card (nodesOf graph - insert n (visited s)), 1, 0)
    | Inr (graph, ns, s) \<Rightarrow> (card ((nodesOf graph \<union> set ns) - visited s), 0, length ns))"

termination dfs
proof (relation "inv_image (less_than <*lex*> less_than <*lex*> less_than) dfs_measure")
  show "wf (inv_image (less_than <*lex*> less_than <*lex*> less_than) dfs_measure)"
    by (intro wf_inv_image wf_lex_prod wf_less_than)
next
  fix graph :: ImportGraph and n :: string and s :: dfsState
  have "nodesOf graph \<union> set (neighbors graph n) = nodesOf graph"
    using neighbors_nodesOf by blast
  then show "(Inr (graph, neighbors graph n, enter n s), Inl (graph, n, s))
      \<in> inv_image (less_than <*lex*> less_than <*lex*> less_than) dfs_measure"
    by (simp add: dfs_measure_def)
next
  fix graph :: ImportGraph and neighbor :: string and rest :: "string list" and s :: dfsState
  assume "neighbor \<notin> visited s"
  then have "nodesOf graph - insert neighbor (visited s)
      \<subset> (nodesOf graph \<union> set (neighbor # rest)) - visited s"
    by auto
  then have "card (nodesOf graph - insert neighbor (visited s))
      < card ((nodesOf graph \<union> set (neighbor # rest)) - visited s)"
    by (intro psubset_card_mono) auto
  then show "(Inl (graph, neighbor, s), Inr (graph, neighbor # rest, s))
      \<in> inv_image (less_than <*lex*> less_than <*lex*> less_than) dfs_measure"
    by (simp add: dfs_measure_def)
next
  fix graph :: ImportGraph and neighbor :: string and rest :: "string list" and s :: dfsState
  assume nv: "neighbor \<notin> visited s"
    and dom: "dfs_dfsNeighbors_dom (Inl (graph, neighbor, s))"
  have "visited s \<subseteq> visited (dfs graph neighbor s)"
    using dfs_visited_mono_dom(1)[OF dom] .
  then have "(nodesOf graph \<union> set rest) - visited (dfs graph neighbor s)
      \<subseteq> (nodesOf graph \<union> set (neighbor # rest)) - visited s"
    by auto
  then have "card ((nodesOf graph \<union> set rest) - visited (dfs graph neighbor s))
      \<le> card ((nodesOf graph \<union> set (neighbor # rest)) - visited s)"
    by (intro card_mono) auto
  then show "(Inr (graph, rest, dfs graph neighbor s), Inr (graph, neighbor # rest, s))
      \<in> inv_image (less_than <*lex*> less_than <*lex*> less_than) dfs_measure"
    by (auto simp: dfs_measure_def)
next
  fix graph :: ImportGraph and neighbor :: string and rest :: "string list" and s :: dfsState
  have "card ((nodesOf graph \<union> set rest) - visited s)
      \<le> card ((nodesOf graph \<union> set (neighbor # rest)) - visited s)"
    by (intro card_mono) auto
  then show "(Inr (graph, rest, recordCycle neighbor s), Inr (graph, neighbor # rest, s))
      \<in> inv_image (less_than <*lex*> less_than <*lex*> less_than) dfs_measure"
    by (auto simp: dfs_measure_def)
next
  fix graph :: ImportGraph and neighbor :: string and rest :: "string list" and s :: dfsState
  have "card ((nodesOf graph \<union> set rest) - visited s)
      \<le> card ((nodesOf graph \<union> set (neighbor # rest)) - visited s)"
    by (intro card_mono) auto
  then show "(Inr (graph, rest, s), Inr (graph, neighbor # rest, s))
      \<in> inv_image (less_than <*lex*> less_than <*lex*> less_than) dfs_measure"
    by (auto simp: dfs_measure_def)
qed

fun dfsRoots :: "ImportGraph \<Rightarrow> string list \<Rightarrow> dfsState \<Rightarrow> dfsState" where
  "dfsRoots graph [] s = s"
| "dfsRoots graph (n # rest) s =
     (if n \<notin> visited s then dfsRoots graph rest (dfs graph n s) else dfsRoots graph rest s)"

definition detectCycles :: "ImportGraph \<Rightarrow> string list list" where
  "detectCycles graph =
     cycles (dfsRoots graph (map fst graph) \<lparr>cycles = [], visited = {}, recStack = {}, path = []\<rparr>)"


section \<open>Rule no-circular-layer-deps\<close>

definition arrow_separator :: string where
  "arrow_separator = [CHR 0x20, CHR 0xE2, CHR 0x86, CHR 0x92, CHR 0x20]"

definition cycleMessage :: "string list \<Rightarrow> string" where
  "cycleMessage cycle =
     ''Circular dependency detected: '' @ join arrow_separator cycle
     @ ''. Break the cycle by extracting shared code to a common layer or using dependency inversion.''"

definition firstFileInCycle :: "string list \<Rightarrow> string option" where
  "firstFileInCycle cycle = (case sort cycle of [] \<Rightarrow> None | f # _ \<Rightarrow> Some f)"

fun circularLoop :: "string \<Rightarrow> string list list \<Rightarrow> Violation list \<Rightarrow> Violation list" where
  "circularLoop path_text [] vs = vs"
| "circularLoop path_text (cycle # rest) vs =
     circularLoop path_text rest
       (if Some path_text = firstFileInCycle cycle
        then vs @ [\<lparr>file_name = path_text, line = 1, column = 1, message = cycleMessage cycle,
                    rule = ''no-circular-layer-deps''\<rparr>]
        else vs)"

definition circularDependency_execute :: "RuleContext \<Rightarrow> RuleResult" where
  "circularDependency_execute ctx =
     (if \<not> truthy (noCircularLayerDeps (rules (architecture ctx))) then emptyResult
      else (case importGraph ctx of
              None \<Rightarrow> emptyResult
            | Some graph \<Rightarrow> resultOf (circularLoop (filePath ctx) (detectCycles graph) [])))"

definition createCircularDependencyRule :: Rule where
  "createCircularDependencyRule =
     \<lparr>ruleName = ''no-circular-layer-deps'',
      description = ''Detects circular dependencies across layers'',
      execute = circularDependency_execute\<rparr>"

section \<open>Rule engine\<close>

type_synonym RuleEngine = "Rule list"

definition registerRule :: "RuleEngine \<Rightarrow> Rule \<Rightarrow> RuleEngine" where
  "registerRule engine r = engine @ [r]"

fun executeRules_loop :: "Rule list \<Rightarrow> RuleContext \<Rightarrow> Violation list \<Rightarrow> Violation list" where
  "executeRules_loop [] ctx allViolations = allViolations"
| "executeRules_loop (r # rest) ctx allViolations =
     executeRules_loop rest ctx (allViolations @ violations (execute r ctx))"

definition executeRules :: "RuleEngine \<Rightarrow> RuleContext \<Rightarrow> RuleResult" where
  "executeRules engine ctx = resultOf (executeRules_loop engine ctx [])"

section \<open>The check command\<close>

text \<open>
  What \<open>runChecks\<close> reads from the file system and writes to the console: the parsed
  \<open>architecture.yaml\<close> found from the working directory (none when
  \<open>findArchitectureConfig\<close> gives \<open>null\<close>), the list \<open>findTypeScriptFiles\<close> returns,
  the contents of the files, which paths exist and which are files, and the lines
  printed so far.
\<close>

datatype consoleLine = FoundViolations nat | ViolationLine Violation | AllChecksPassed

record world =
  configDocument :: "jsval option"
  sourceFiles :: "string list"
  readFileSync :: "string \<Rightarrow> string"
  existsSync :: "string \<Rightarrow> bool"
  statIsFile :: "string \<Rightarrow> bool"
  console :: "consoleLine list"

datatype runError = ConfigNotFound | ConfigInvalid configError

record checkOutcome =
  checkPassed :: bool
  violationCount :: nat

definition resolveImportPath :: "platform \<Rightarrow> world \<Rightarrow> string \<Rightarrow> string \<Rightarrow> string option" where
  "resolveImportPath P w importPath fromFile =
     (let resolved = resolveFromFile P fromFile importPath in
      if existsSync w resolved \<and> statIsFile w resolved then Some resolved
      else (case find (\<lambda>ext. existsSync w (resolved @ ext)) [''.ts'', ''.tsx'', ''.js'', ''.jsx'']
            of
              Some ext \<Rightarrow> Some (resolved @ ext)
            | None \<Rightarrow>
                (case find (\<lambda>ext. existsSync w (resolved @ ext))
                        [''/index.ts'', ''/index.tsx'', ''/index.js'', ''/index.jsx''] of
                   Some ext \<Rightarrow> Some (resolved @ ext)
                 | None \<Rightarrow> None)))"

fun relativeImports_loop ::
  "platform \<Rightarrow> world \<Rightarrow> string \<Rightarrow> ImportInfo list \<Rightarrow> string list \<Rightarrow> string list" where
  "relativeImports_loop P w path_text [] acc = acc"
| "relativeImports_loop P w path_text (imp # rest) acc =
     relativeImports_loop P w path_text rest
       (if startsWith (from_module imp) ''.'' \<or> startsWith (from_module imp) ''/'' then
          (case resolveImportPath P w (from_module imp) path_text of
             None \<Rightarrow> acc
           | Some resolvedPath \<Rightarrow>
               (if resolvedPath \<noteq> [] \<and> resolvedPath \<in> set (sourceFiles w)
                then acc @ [resolvedPath] else acc))
        else acc)"

fun buildImportGraph_loop ::
  "platform \<Rightarrow> world \<Rightarrow> string list \<Rightarrow> ImportGraph \<Rightarrow> ImportGraph" where
  "buildImportGraph_loop P w [] graph = graph"
| "buildImportGraph_loop P w (path_text # rest) graph =
     buildImportGraph_loop P w rest
       (AList.update path_text
          (relativeImports_loop P w path_text
             (extractImports (parseTypeScript P (readFileSync w path_text) path_text)) [])
          graph)"

definition buildImportGraph :: "platform \<Rightarrow> world \<Rightarrow> ImportGraph" where
  "buildImportGraph P w = buildImportGraph_loop P w (sourceFiles w) []"

definition contextFor ::
  "platform \<Rightarrow> world \<Rightarrow> ArchitectureConfig \<Rightarrow> ImportGraph \<Rightarrow> string \<Rightarrow> RuleContext" where
  "contextFor P w arch graph path_text =
     (let src = readFileSync w path_text;
          tree = parseTypeScript P src path_text
      in \<lparr>filePath = path_text, sourceCode = src, ast = tree,
          importList = extractImports tree, architecture = arch,
          importGraph = Some graph\<rparr>)"

definition checkEngine :: "platform \<Rightarrow> RuleEngine" where
  "checkEngine P =
     registerRule
       (registerRule
          (registerRule (registerRule [] (createLayerImportBoundaryRule P))
             (createBusinessLogicInComponentsRule P))
          (createDataFetchingInUIRule P))
       createCircularDependencyRule"

fun runChecks_loop ::
  "platform \<Rightarrow> world \<Rightarrow> ArchitectureConfig \<Rightarrow> ImportGraph \<Rightarrow> string list \<Rightarrow>
   Violation list \<Rightarrow> Violation list" where
  "runChecks_loop P w arch graph [] allViolations = allViolations"
| "runChecks_loop P w arch graph (path_text # rest) allViolations =
     runChecks_loop P w arch graph rest
       (allViolations
        @ violations (executeRules (checkEngine P) (contextFor P w arch graph path_text)))"

definition allViolationsOf :: "platform \<Rightarrow> world \<Rightarrow> ArchitectureConfig \<Rightarrow> Violation list" where
  "allViolationsOf P w arch =
     runChecks_loop P w arch (buildImportGraph P w) (sourceFiles w) []"

definition runChecks :: "platform \<Rightarrow> world \<Rightarrow> (runError + checkOutcome) \<times> world" where
  "runChecks P w =
     (case configDocument w of
        None \<Rightarrow> (Inl ConfigNotFound, w)
      | Some doc \<Rightarrow>
          (case validateArchitectureConfig doc of
             Inl e \<Rightarrow> (Inl (ConfigInvalid e), w)
           | Inr arch \<Rightarrow>
               (let allViolations = allViolationsOf P w arch in
                if length allViolations > 0
                then (Inr \<lparr>checkPassed = False, violationCount = length allViolations\<rparr>,
                      w\<lparr>console := console w @ [FoundViolations (length allViolations)]
                                      @ map ViolationLine allViolations\<rparr>)
                else (Inr \<lparr>checkPassed = True, violationCount = 0\<rparr>,
                      w\<lparr>console := console w @ [AllChecksPassed]\<rparr>))))"




section \<open>Notions used to state the properties\<close>

text \<open>
  A toggle is absent from a configuration document when the document has no \<open>rules\<close>
  section, or its \<open>rules\<close> section is a mapping without that key.
\<close>

definition toggleAbsent :: "jsval \<Rightarrow> string \<Rightarrow> bool" where
  "toggleAbsent doc k =
     (case doc of
        JObj props \<Rightarrow>
          (case map_of props ''rules'' of
             None \<Rightarrow> True
           | Some (JObj toggles) \<Rightarrow> map_of toggles k = None
           | Some _ \<Rightarrow> False)
      | _ \<Rightarrow> False)"

text \<open>
  Path segments: the pieces of a path between its separators.  A name is bounded by
  separators on both sides when the path reads \<open>\<dots>/name/\<dots>\<close>; for a name without a
  separator this says that it is one of the segments other than the first and the last.
\<close>

fun splitOn :: "char \<Rightarrow> string \<Rightarrow> string list" where
  "splitOn sep [] = [[]]"
| "splitOn sep (c # cs) =
     (if c = sep then [] # splitOn sep cs
      else (case splitOn sep cs of [] \<Rightarrow> [[c]] | s # ss \<Rightarrow> (c # s) # ss))"

definition interiorSegments :: "string \<Rightarrow> string list" where
  "interiorSegments p = butlast (tl (splitOn CHR ''/'' p))"

definition boundedBySeparators :: "string \<Rightarrow> string \<Rightarrow> bool" where
  "boundedBySeparators name p = (\<exists>pre post. p = pre @ ''/'' @ name @ ''/'' @ post)"

section \<open>A concrete platform and project for the examples\<close>

text \<open>
  \<open>path.resolve(path.dirname(fromFile), importPath)\<close> on absolute POSIX paths: the
  segments of the directory of \<open>fromFile\<close> followed by those of \<open>importPath\<close> (those of
  \<open>importPath\<close> alone when it is absolute), with empty and \<open>.\<close> segments dropped and
  \<open>..\<close> removing the segment before it.
\<close>

fun resolveSegments :: "string list \<Rightarrow> string list \<Rightarrow> string list" where
  "resolveSegments stack [] = stack"
| "resolveSegments stack (seg # rest) =
     (if seg = [] \<or> seg = ''.'' then resolveSegments stack rest
      else if seg = ''..'' then resolveSegments (butlast stack) rest
      else resolveSegments (stack @ [seg]) rest)"

definition posixResolveFromFile :: "string \<Rightarrow> string \<Rightarrow> string" where
  "posixResolveFromFile fromFile importPath =
     ''/'' @ join ''/''
       (resolveSegments []
          ((if startsWith importPath ''/'' then [] else butlast (splitOn CHR ''/'' fromFile))
           @ splitOn CHR ''/'' importPath))"

text \<open>A platform whose parser returns a given tree, whatever the text.\<close>

definition platformWith :: "node \<Rightarrow> platform" where
  "platformWith tree =
     \<lparr>createSourceFile = (\<lambda>fileName src. tree),
      getLineAndCharacterOfPosition = (\<lambda>sourceFile pos. (0, pos)),
      resolveFromFile = posixResolveFromFile,
      matchAll = (\<lambda>pattern src. [])\<rparr>"

definition sampleLayers :: "(string \<times> LayerConfig) list" where
  "sampleLayers =
     [(''domain'', \<lparr>allowedImports = []\<rparr>),
      (''features'', \<lparr>allowedImports = [JStr ''domain'', JStr ''shared'']\<rparr>),
      (''ui'', \<lparr>allowedImports = [JStr ''features'', JStr ''shared'']\<rparr>)]"

definition togglesAll :: "jsval \<Rightarrow> RuleToggles" where
  "togglesAll v =
     \<lparr>noBusinessLogicInComponents = v, noDataFetchingInUI = v,
      enforceFeatureBoundaries = v, noCircularLayerDeps = v\<rparr>"

text \<open>The file \<open>/p/src/ui/Foo.tsx\<close>, whose only statement imports \<open>../domain/Bar\<close>.\<close>

definition fooTree :: node where
  "fooTree = Node SourceFile 0 [Node (ImportDeclaration (Some ''../domain/Bar'') None) 0 []]"

definition fooContext :: "jsval \<Rightarrow> ImportGraph option \<Rightarrow> RuleContext" where
  "fooContext toggle graph =
     \<lparr>filePath = ''/p/src/ui/Foo.tsx'', sourceCode = ''import '' @ quoted ''../domain/Bar'' @ '';'',
      ast = fooTree, importList = extractImports fooTree,
      architecture = \<lparr>layers = sampleLayers, rules = togglesAll toggle\<rparr>,
      importGraph = graph\<rparr>"

text \<open>A configuration document with three layers and no \<open>rules\<close> section.\<close>

definition documentWithoutRules :: jsval where
  "documentWithoutRules =
     JObj [(''layers'',
            JObj [(''domain'', JObj [(''allowedImports'', JArr [])]),
                  (''features'',
                   JObj [(''allowedImports'', JArr [JStr ''domain'', JStr ''shared''])]),
                  (''ui'',
                   JObj [(''allowedImports'', JArr [JStr ''features'', JStr ''shared''])])])]"

text \<open>The Windows spelling of \<open>C:/p/ui/Foo.tsx\<close>, and a context for a file outside every
  layer.\<close>

definition windowsPath :: string where
  "windowsPath = ''C:'' @ [backslash] @ ''p'' @ [backslash] @ ''ui'' @ [backslash] @ ''Foo.tsx''"

definition unlayeredContext :: RuleContext where
  "unlayeredContext = (fooContext (JBool True) None)\<lparr>filePath := ''/p/src/lib/Foo.tsx''\<rparr>"

text \<open>
  The nodes of a tree, and the notions the boundary rule is stated with: a path resolves
  to a layer when the resolver returns a name that is not empty (the rule's truthiness
  tests treat the empty name as no layer); an import violates the boundary when it is
  relative, the importing file and the imported path resolve to layers, the two differ
  and the imported layer is not among the \<open>allowedImports\<close> of the importing one.
\<close>

fun subnodes :: "node \<Rightarrow> node list"
  and subnodes_list :: "node list \<Rightarrow> node list" where
  "subnodes (Node k p cs) = Node k p cs # subnodes_list cs"
| "subnodes_list [] = []"
| "subnodes_list (c # cs) = subnodes c @ subnodes_list cs"

definition importsModule :: "node \<Rightarrow> string \<Rightarrow> bool" where
  "importsModule n spec = (case kind n of ImportDeclaration (Some t) clause \<Rightarrow> t = spec | _ \<Rightarrow> False)"

definition resolvesToLayer :: "(string \<times> 'a) list \<Rightarrow> string \<Rightarrow> string option" where
  "resolvesToLayer layer_map p =
     (case detectLayerFromPath p layer_map of
        None \<Rightarrow> None
      | Some l \<Rightarrow> if l = [] then None else Some l)"

definition allowedImportsOf :: "(string \<times> LayerConfig) list \<Rightarrow> string \<Rightarrow> jsval list" where
  "allowedImportsOf layer_map l =
     (case map_of layer_map l of None \<Rightarrow> [] | Some c \<Rightarrow> allowedImports c)"

definition boundaryViolating :: "platform \<Rightarrow> RuleContext \<Rightarrow> ImportInfo \<Rightarrow> bool" where
  "boundaryViolating P ctx imp =
     (isRelativeImport (from_module imp) \<and>
      (case resolvesToLayer (layers (architecture ctx)) (filePath ctx) of
         None \<Rightarrow> False
       | Some fileLayer \<Rightarrow>
           (case resolvesToLayer (layers (architecture ctx))
                   (resolveFromFile P (filePath ctx) (from_module imp)) of
              None \<Rightarrow> False
            | Some importedLayer \<Rightarrow>
                importedLayer \<noteq> fileLayer \<and>
                JStr importedLayer
                  \<notin> set (allowedImportsOf (layers (architecture ctx)) fileLayer))))"

definition boundaryViolationOf :: "platform \<Rightarrow> RuleContext \<Rightarrow> ImportInfo \<Rightarrow> Violation" where
  "boundaryViolationOf P ctx imp =
     (let tree = parseTypeScript P (sourceCode ctx) (filePath ctx);
          fileLayer = the (resolvesToLayer (layers (architecture ctx)) (filePath ctx));
          importedLayer = the (resolvesToLayer (layers (architecture ctx))
                                 (resolveFromFile P (filePath ctx) (from_module imp)));
          pos = getLineAndCharacterOfPosition P tree
                  (getStart (the (findImportNode tree (from_module imp))))
      in \<lparr>file_name = filePath ctx, line = fst pos + 1, column = snd pos + 1,
          message = boundaryMessage fileLayer importedLayer
                      (allowedImportsOf (layers (architecture ctx)) fileLayer),
          rule = ''layer-import-boundary''\<rparr>)"

text \<open>
  The violation the cycle rule builds for a cycle, and what it means that a path is the
  smallest of a cycle in the order \<open>sort()\<close> uses (strings compared character by
  character, a proper prefix first).
\<close>

definition cycleViolation :: "string \<Rightarrow> string list \<Rightarrow> Violation" where
  "cycleViolation path_text cycle =
     \<lparr>file_name = path_text, line = 1, column = 1, message = cycleMessage cycle,
      rule = ''no-circular-layer-deps''\<rparr>"

definition smallestPathIs :: "string \<Rightarrow> string list \<Rightarrow> bool" where
  "smallestPathIs path_text cycle = (cycle \<noteq> [] \<and> Min (set cycle) = path_text)"

text \<open>
  Two worlds hold the same project when they agree on the configuration document, the
  list of source files, the contents of the files and on what exists; the lines a run
  prints are those it adds to the console.
\<close>

definition sameProject :: "world \<Rightarrow> world \<Rightarrow> bool" where
  "sameProject w w' =
     (configDocument w' = configDocument w \<and> sourceFiles w' = sourceFiles w
      \<and> readFileSync w' = readFileSync w \<and> existsSync w' = existsSync w
      \<and> statIsFile w' = statIsFile w)"

definition printedBy :: "platform \<Rightarrow> world \<Rightarrow> consoleLine list" where
  "printedBy P w = drop (length (console w)) (console (snd (runChecks P w)))"

text \<open>
  A project of two files, \<open>/p/a.ts\<close> and \<open>/p/b.ts\<close>, whose trees consist of import
  declarations with given module specifiers, with every rule switched on.
\<close>

definition importTree :: "string list \<Rightarrow> node" where
  "importTree specs =
     Node SourceFile 0 (map (\<lambda>spec. Node (ImportDeclaration (Some spec) None) 0 []) specs)"

definition twoFilePlatform :: "string list \<Rightarrow> string list \<Rightarrow> platform" where
  "twoFilePlatform importsOfA importsOfB =
     \<lparr>createSourceFile =
        (\<lambda>fileName src. if fileName = ''/p/a.ts'' then importTree importsOfA
                         else importTree importsOfB),
      getLineAndCharacterOfPosition = (\<lambda>sourceFile pos. (0, pos)),
      resolveFromFile = posixResolveFromFile,
      matchAll = (\<lambda>pattern src. [])\<rparr>"

definition documentAllOn :: jsval where
  "documentAllOn =
     JObj [(''layers'',
            JObj [(''domain'', JObj [(''allowedImports'', JArr [])]),
                  (''ui'', JObj [(''allowedImports'', JArr [JStr ''domain''])])]),
           (''rules'',
            JObj [(''noBusinessLogicInComponents'', JBool True),
                  (''noDataFetchingInUI'', JBool True),
                  (''enforceFeatureBoundaries'', JBool True),
                  (''noCircularLayerDeps'', JBool True)])]"

definition architectureAllOn :: ArchitectureConfig where
  "architectureAllOn =
     \<lparr>layers = [(''domain'', \<lparr>allowedImports = []\<rparr>),
                (''ui'', \<lparr>allowedImports = [JStr ''domain'']\<rparr>)],
      rules = togglesAll (JBool True)\<rparr>"

definition twoFileWorld :: world where
  "twoFileWorld =
     \<lparr>configDocument = Some documentAllOn,
      sourceFiles = [''/p/a.ts'', ''/p/b.ts''],
      readFileSync = (\<lambda>path_text. []),
      existsSync = (\<lambda>path_text. path_text \<in> set [''/p/a.ts'', ''/p/b.ts'']),
      statIsFile = (\<lambda>path_text. path_text \<in> set [''/p/a.ts'', ''/p/b.ts'']),
      console = []\<rparr>"

definition plainImport :: "string \<Rightarrow> ImportInfo" where
  "plainImport spec = \<lparr>from_module = spec, specifiers = [], isTypeOnly = False\<rparr>"

section \<open>Notions used to state the properties of the cycle detector\<close>

text \<open>
  A path of the graph is a sequence of nodes in which each one has the next among its
  neighbours; a cycle as \<open>detectCycles\<close> returns it is such a path of at least two entries
  that ends where it starts and repeats no other node.  The remaining definitions are
  the invariants of the traversal: the recursion stack is the set of the nodes of the
  current path, which is a path of the graph without repetition; a call changes neither
  the path nor the stack, and only adds visited nodes and cycles; the nodes the
  traversal has finished with are closed under the edges and lie on no cycle as long as
  no cycle has been recorded.
\<close>

fun isPathIn :: "ImportGraph \<Rightarrow> string list \<Rightarrow> bool" where
  "isPathIn graph [] = True"
| "isPathIn graph [x] = True"
| "isPathIn graph (x # y # rest) = (y \<in> set (neighbors graph x) \<and> isPathIn graph (y # rest))"

definition isSimpleCycle :: "ImportGraph \<Rightarrow> string list \<Rightarrow> bool" where
  "isSimpleCycle graph c =
     (2 \<le> length c \<and> hd c = last c \<and> distinct (butlast c) \<and> isPathIn graph c)"

definition importEdges :: "ImportGraph \<Rightarrow> (string \<times> string) set" where
  "importEdges graph = {(u, v). v \<in> set (neighbors graph u)}"

definition wfState :: "ImportGraph \<Rightarrow> dfsState \<Rightarrow> bool" where
  "wfState graph s =
     (distinct (path s) \<and> recStack s = set (path s) \<and> set (path s) \<subseteq> visited s
      \<and> isPathIn graph (path s))"

definition frame :: "ImportGraph \<Rightarrow> dfsState \<Rightarrow> dfsState \<Rightarrow> bool" where
  "frame graph s s' =
     (path s' = path s \<and> recStack s' = recStack s \<and> visited s \<subseteq> visited s'
      \<and> (\<exists>new. cycles s' = cycles s @ new \<and> (\<forall>c \<in> set new. isSimpleCycle graph c)))"

definition selfLoopsRecorded :: "ImportGraph \<Rightarrow> dfsState \<Rightarrow> bool" where
  "selfLoopsRecorded graph s =
     (\<forall>n \<in> visited s - recStack s. n \<in> set (neighbors graph n) \<longrightarrow> [n, n] \<in> set (cycles s))"

definition finished :: "dfsState \<Rightarrow> string set" where
  "finished s = visited s - recStack s"

definition closedAcyclic :: "ImportGraph \<Rightarrow> dfsState \<Rightarrow> bool" where
  "closedAcyclic graph s =
     ((\<forall>u \<in> finished s. set (neighbors graph u) \<subseteq> finished s)
      \<and> (\<forall>u \<in> finished s. (u, u) \<notin> (importEdges graph)\<^sup>+))"

definition initialState :: dfsState where
  "initialState = \<lparr>cycles = [], visited = {}, recStack = {}, path = []\<rparr>"

text \<open>Three files: \<open>a\<close> imports \<open>b\<close> and \<open>c\<close>, \<open>b\<close> imports \<open>c\<close>, \<open>c\<close> imports \<open>a\<close>; and one file
  that imports itself.\<close>

definition triangleGraph :: ImportGraph where
  "triangleGraph =
     [(''/p/a.ts'', [''/p/b.ts'', ''/p/c.ts'']), (''/p/b.ts'', [''/p/c.ts'']),
      (''/p/c.ts'', [''/p/a.ts''])]"

definition selfImportGraph :: ImportGraph where
  "selfImportGraph = [(''/p/a.ts'', [''/p/a.ts''])]"

text \<open>
  Strings stand for the UTF-8 bytes of the JavaScript strings.  \<open>sort()\<close> compares UTF-16
  code units; the two orders agree on strings without characters beyond U+FFFF, whose
  UTF-8 bytes are all below \<open>0xF0\<close>.  Statements about the smallest path of a cycle are
  made for such paths.
\<close>

definition withinBMP :: "string \<Rightarrow> bool" where
  "withinBMP p = list_all (\<lambda>c. (of_char c :: nat) < 240) p"

text \<open>
  The file \<open>/p/src/ui/Foo.tsx\<close> with two import statements for \<open>../domain/Bar\<close>, a value
  import at offset 0 and a type import at offset 68.
\<close>

definition repeatedImportTree :: node where
  "repeatedImportTree =
     Node SourceFile 0
       [Node (ImportDeclaration (Some ''../domain/Bar'')
                (Some (ImportClause False (Some (NamedImports [''bar''])) None))) 0 [],
        Node (ImportDeclaration (Some ''../domain/Bar'')
                (Some (ImportClause True (Some (NamedImports [''Bar''])) None))) 68 []]"

definition repeatedImportContext :: RuleContext where
  "repeatedImportContext =
     (fooContext (JBool True) None)
       \<lparr>ast := repeatedImportTree, importList := extractImports repeatedImportTree\<rparr>"

section \<open>Properties of the component classifier\<close>

lemma toUpperCase_char_fixed: "\<not> is_lowercase_letter c \<Longrightarrow> toUpperCase_char c = c"
  unfolding is_lowercase_letter_def toUpperCase_char_def
  by (simp split: option.splits)

lemma toUpperCase_char_lower: "is_lowercase_letter c \<Longrightarrow> toUpperCase_char c \<noteq> c"
  unfolding is_lowercase_letter_def toUpperCase_char_def
  by auto

lemma isComponentFunction_iff:
  "isComponentFunction n \<longleftrightarrow>
     (\<exists>nm. kind n = FunctionDeclaration (Some nm) \<and> nm \<noteq> [] \<and>
           (\<not> is_lowercase_letter (hd nm) \<or> startsWith nm ''use''))"
proof (cases n)
  case (Node k s cs)
  then show ?thesis
    by (cases k)
      (auto simp: isComponentFunction_def functionName_def toUpperCase_def
        split: option.splits dest: toUpperCase_char_lower toUpperCase_char_fixed)
qed

text \<open>
  Claim C2 (the code departs from it).  The claim: a function in declared, expression or
  arrow form is a component function exactly when it has a name that starts with an
  upper-case letter or with \<open>use\<close>.  The classifier admits the three forms in its first
  test and then reads the name of a function declaration only: every function
  expression and every arrow function is rejected, whatever its name, its position and
  its children, where the declaration of the same name \<open>Foo\<close> is accepted.
\<close>

theorem isComponentFunction_rejects_expression_forms:
  "isComponentFunction (Node (FunctionExpression nm) p cs) = False \<and>
   isComponentFunction (Node (ArrowFunction nm) p cs) = False \<and>
   isComponentFunction (Node (FunctionExpression (Some ''Foo'')) p cs) = False \<and>
   isComponentFunction (Node (ArrowFunction (Some ''Foo'')) p cs) = False \<and>
   isComponentFunction (Node (FunctionDeclaration (Some ''Foo'')) p cs) = True"
  by (simp add: isComponentFunction_def functionName_def toUpperCase_def
      toUpperCase_char_def startsWith_def)

text \<open>
  Claim C10.  A function declaration whose name is not empty and whose first character
  is an ASCII character other than a lower-case letter (an underscore, a dollar sign, a
  digit, an upper-case letter) is a component function: the test compares the first
  character with its own upper-case form, and case conversion leaves every such
  character unchanged.
\<close>

theorem isComponentFunction_first_char_not_lowercase:
  assumes "kind n = FunctionDeclaration (Some nm)" and "nm \<noteq> []"
    and "is_ascii (hd nm)" and "\<not> is_lowercase_letter (hd nm)"
  shows "isComponentFunction n"
proof -
  have "isFunctionDeclaration n" using assms(1) by (cases n) simp
  moreover have "functionName n = Some nm" using assms(1) by (simp add: functionName_def)
  moreover have "toUpperCase [hd nm] = [hd nm]"
    using assms(4) by (simp add: toUpperCase_def toUpperCase_char_fixed)
  ultimately show ?thesis using assms(2) by (simp add: isComponentFunction_def)
qed

theorem isComponentFunction_first_char_not_lowercase_witness:
  "isComponentFunction (Node (FunctionDeclaration (Some ''_helper'')) 0 []) \<and>
   isComponentFunction (Node (FunctionDeclaration (Some ''$x'')) 0 []) \<and>
   isComponentFunction (Node (FunctionDeclaration (Some ''9lives'')) 0 [])"
  using isComponentFunction_first_char_not_lowercase
          [of "Node (FunctionDeclaration (Some ''_helper'')) 0 []" "''_helper''"]
        isComponentFunction_first_char_not_lowercase
          [of "Node (FunctionDeclaration (Some ''$x'')) 0 []" "''$x''"]
        isComponentFunction_first_char_not_lowercase
          [of "Node (FunctionDeclaration (Some ''9lives'')) 0 []" "''9lives''"]
  by (simp add: is_ascii_def is_lowercase_letter_def)

section \<open>Toggles\<close>

lemma boundary_off:
  "\<not> truthy (enforceFeatureBoundaries (rules (architecture ctx))) \<Longrightarrow>
   execute (createLayerImportBoundaryRule P) ctx = \<lparr>violations = [], passed = True\<rparr>"
  by (simp add: createLayerImportBoundaryRule_def layerImportBoundary_execute_def emptyResult_def)

lemma business_off:
  "\<not> truthy (noBusinessLogicInComponents (rules (architecture ctx))) \<Longrightarrow>
   execute (createBusinessLogicInComponentsRule P) ctx = \<lparr>violations = [], passed = True\<rparr>"
  by (simp add: createBusinessLogicInComponentsRule_def businessLogicInComponents_execute_def
      emptyResult_def)

lemma fetching_off:
  "\<not> truthy (noDataFetchingInUI (rules (architecture ctx))) \<Longrightarrow>
   execute (createDataFetchingInUIRule P) ctx = \<lparr>violations = [], passed = True\<rparr>"
  by (simp add: createDataFetchingInUIRule_def dataFetchingInUI_execute_def emptyResult_def)

lemma circular_off:
  "\<not> truthy (noCircularLayerDeps (rules (architecture ctx))) \<Longrightarrow>
   execute createCircularDependencyRule ctx = \<lparr>violations = [], passed = True\<rparr>"
  by (simp add: createCircularDependencyRule_def circularDependency_execute_def emptyResult_def)

lemma toggleOrFalse_absent:
  assumes "toggleAbsent doc k"
  shows "toggleOrFalse (if truthy (getProp doc ''rules'') then getProp doc ''rules'' else JObj []) k
     = JBool False"
proof (cases doc)
  case (JObj props)
  show ?thesis
  proof (cases "map_of props ''rules''")
    case None
    with JObj show ?thesis by (simp add: toggleOrFalse_def)
  next
    case (Some r)
    with JObj assms show ?thesis
      by (cases r) (simp_all add: toggleAbsent_def toggleOrFalse_def)
  qed
qed (use assms in \<open>simp_all add: toggleAbsent_def\<close>)

lemma validate_rules:
  assumes "validateArchitectureConfig doc = Inr arch"
  shows "rules arch =
    (let r = (if truthy (getProp doc ''rules'') then getProp doc ''rules'' else JObj []) in
     \<lparr>noBusinessLogicInComponents = toggleOrFalse r ''noBusinessLogicInComponents'',
      noDataFetchingInUI = toggleOrFalse r ''noDataFetchingInUI'',
      enforceFeatureBoundaries = toggleOrFalse r ''enforceFeatureBoundaries'',
      noCircularLayerDeps = toggleOrFalse r ''noCircularLayerDeps''\<rparr>)"
  using assms
  by (auto simp: validateArchitectureConfig_def Let_def split: if_splits sum.splits)

section \<open>Properties of the layer resolver\<close>

lemma startsWith_iff: "startsWith s p \<longleftrightarrow> (\<exists>post. s = p @ post)"
  unfolding startsWith_def
  by (metis append_eq_conv_conj append_take_drop_id)

lemma includes_str_iff: "includes_str s p \<longleftrightarrow> (\<exists>pre post. s = pre @ p @ post)"
proof (induction s)
  case Nil
  then show ?case by auto
next
  case (Cons c cs)
  show ?case
  proof
    assume "includes_str (c # cs) p"
    then consider "startsWith (c # cs) p" | "includes_str cs p" by auto
    then show "\<exists>pre post. c # cs = pre @ p @ post"
    proof cases
      case 1
      then obtain post where "c # cs = p @ post" using startsWith_iff by blast
      then have "c # cs = [] @ p @ post" by simp
      then show ?thesis by blast
    next
      case 2
      then obtain pre post where "cs = pre @ p @ post" using Cons.IH by blast
      then have "c # cs = (c # pre) @ p @ post" by simp
      then show ?thesis by blast
    qed
  next
    assume "\<exists>pre post. c # cs = pre @ p @ post"
    then obtain pre post where e: "c # cs = pre @ p @ post" by blast
    show "includes_str (c # cs) p"
    proof (cases pre)
      case Nil
      with e have "startsWith (c # cs) p" using startsWith_iff by auto
      then show ?thesis by simp
    next
      case (Cons a pre')
      with e have "cs = pre' @ p @ post" by simp
      then have "includes_str cs p" using Cons.IH by blast
      then show ?thesis by simp
    qed
  qed
qed

lemma splitOn_nonempty [simp]: "splitOn sep s \<noteq> []"
  by (induction s) (auto split: list.splits)

lemma splitOn_no_sep: "sep \<notin> set s \<Longrightarrow> splitOn sep s = [s]"
  by (induction s) auto

lemma splitOn_append_sep:
  "splitOn sep (a @ sep # b) = splitOn sep a @ splitOn sep b"
  by (induction a) (auto split: list.splits)

lemma join_splitOn: "join [sep] (splitOn sep s) = s"
proof (induction s)
  case Nil
  then show ?case by simp
next
  case (Cons c cs)
  show ?case
  proof (cases "c = sep")
    case True
    obtain x xs where "splitOn sep cs = x # xs" by (cases "splitOn sep cs") auto
    with Cons True show ?thesis by simp
  next
    case False
    obtain x xs where e: "splitOn sep cs = x # xs" by (cases "splitOn sep cs") auto
    with Cons False show ?thesis by (cases xs) auto
  qed
qed

lemma join_append:
  "a \<noteq> [] \<Longrightarrow> b \<noteq> [] \<Longrightarrow> join sep (a @ b) = join sep a @ sep @ join sep b"
proof (induction a rule: join.induct[where ?a0.0 = sep])
  case (1)
  then show ?case by simp
next
  case (2 x)
  then show ?case by (cases b) auto
next
  case (3 x y ys)
  then show ?case by simp
qed

lemma segment_iff:
  assumes "CHR ''/'' \<notin> set name"
  shows "boundedBySeparators name p \<longleftrightarrow> name \<in> set (interiorSegments p)"
proof
  assume "boundedBySeparators name p"
  then obtain pre post where p: "p = pre @ ''/'' @ name @ ''/'' @ post"
    by (auto simp: boundedBySeparators_def)
  have "splitOn CHR ''/'' p = splitOn CHR ''/'' pre @ splitOn CHR ''/'' (name @ CHR ''/'' # post)"
    using p splitOn_append_sep[of "CHR ''/''" pre "name @ CHR ''/'' # post"] by simp
  also have "\<dots> = splitOn CHR ''/'' pre @ [name] @ splitOn CHR ''/'' post"
    using splitOn_append_sep[of "CHR ''/''" name post] splitOn_no_sep[OF assms] by simp
  finally have s: "splitOn CHR ''/'' p = splitOn CHR ''/'' pre @ [name] @ splitOn CHR ''/'' post" .
  obtain a as where a: "splitOn CHR ''/'' pre = a # as" by (cases "splitOn CHR ''/'' pre") auto
  have "butlast (tl (splitOn CHR ''/'' p)) = as @ [name] @ butlast (splitOn CHR ''/'' post)"
    using s a by (simp add: butlast_append)
  then show "name \<in> set (interiorSegments p)" by (simp add: interiorSegments_def)
next
  assume "name \<in> set (interiorSegments p)"
  then have m: "name \<in> set (butlast (tl (splitOn CHR ''/'' p)))" by (simp add: interiorSegments_def)
  obtain a as where a: "splitOn CHR ''/'' p = a # as" by (cases "splitOn CHR ''/'' p") auto
  with m have m': "name \<in> set (butlast as)" by simp
  then have "as \<noteq> []" by auto
  then obtain bs z where z: "as = bs @ [z]" by (metis rev_exhaust)
  with m' have "name \<in> set bs" by simp
  then obtain b1 b2 where b: "bs = b1 @ name # b2" by (meson split_list)
  have sp: "splitOn CHR ''/'' p = (a # b1) @ ((name # b2) @ [z])" using a z b by simp
  have "p = join ''/'' (splitOn CHR ''/'' p)" by (simp add: join_splitOn)
  also have "\<dots> = join ''/'' (a # b1) @ ''/'' @ join ''/'' ((name # b2) @ [z])"
    unfolding sp by (rule join_append) auto
  also have "join ''/'' ((name # b2) @ [z]) = name @ ''/'' @ join ''/'' (b2 @ [z])"
    by (cases b2) auto
  finally have "p = join ''/'' (a # b1) @ ''/'' @ name @ ''/'' @ join ''/'' (b2 @ [z])" by simp
  then show "boundedBySeparators name p" unfolding boundedBySeparators_def by blast
qed

lemma normalize_no_backslash: "backslash \<notin> set (normalizeSeparators p)"
  by (auto simp: normalizeSeparators_def backslash_def)

lemma no_backslash_segment:
  assumes "backslash \<notin> set np"
  shows "\<not> includes_str np ([backslash] @ name @ [backslash])"
proof
  assume "includes_str np ([backslash] @ name @ [backslash])"
  then obtain pre post where "np = pre @ ([backslash] @ name @ [backslash]) @ post"
    using includes_str_iff by blast
  then have "backslash \<in> set np" by simp
  with assms show False by simp
qed

lemma detectLayer_loop_find:
  assumes "backslash \<notin> set np"
  shows "detectLayer_loop np names = find (\<lambda>name. boundedBySeparators name np) names"
proof (induction names)
  case Nil
  then show ?case by simp
next
  case (Cons n ns)
  have "includes_str np (''/'' @ n @ ''/'') \<longleftrightarrow> boundedBySeparators n np"
    by (simp add: includes_str_iff boundedBySeparators_def)
  with Cons no_backslash_segment[OF assms, of n] show ?case by simp
qed

lemma detectLayerFromPath_find:
  "detectLayerFromPath p layer_map
     = find (\<lambda>name. boundedBySeparators name (normalizeSeparators p)) (map fst layer_map)"
  unfolding detectLayerFromPath_def
  by (rule detectLayer_loop_find[OF normalize_no_backslash])




lemma fooContext_boundary_on:
  "violations (execute (createLayerImportBoundaryRule (platformWith fooTree))
      (fooContext (JBool True) None))
   = [\<lparr>file_name = ''/p/src/ui/Foo.tsx'', line = 1, column = 1,
       message = boundaryMessage ''ui'' ''domain'' [JStr ''features'', JStr ''shared''],
       rule = ''layer-import-boundary''\<rparr>]"
  by (simp add: createLayerImportBoundaryRule_def layerImportBoundary_execute_def
      fooContext_def togglesAll_def sampleLayers_def detectLayerFromPath_def
      normalizeSeparators_def backslash_def startsWith_def fooTree_def extractImports_def
      importInfoOf_def resultOf_def boundaryCheckImport_def isRelativeImport_def
      detectLayerFromImportPath_def platformWith_def posixResolveFromFile_def
      parseTypeScript_def findImportNode_def)

text \<open>
  Claim C6.  The layer resolver replaces every backslash by a slash and returns the first
  layer name, in the order of the mapping's keys, for which the normalized path reads
  \<open>\<dots>/name/\<dots>\<close>, and none when there is no such name.  For layer names without a slash
  this is the first name that is a segment of the normalized path other than its first
  and its last.  A file that resolves to no layer gets an empty, passing result from the
  boundary rule.
\<close>

theorem detectLayerFromPath_first_bounded_segment:
  "detectLayerFromPath p layer_map
     = find (\<lambda>name. boundedBySeparators name (normalizeSeparators p)) (map fst layer_map)
   \<and> ((\<forall>name \<in> set (map fst layer_map). CHR ''/'' \<notin> set name) \<longrightarrow>
        detectLayerFromPath p layer_map
          = find (\<lambda>name. name \<in> set (interiorSegments (normalizeSeparators p)))
              (map fst layer_map))
   \<and> (detectLayerFromPath (filePath ctx) (layers (architecture ctx)) = None \<longrightarrow>
        execute (createLayerImportBoundaryRule P) ctx = \<lparr>violations = [], passed = True\<rparr>)"
proof (intro conjI impI)
  show "detectLayerFromPath p layer_map
     = find (\<lambda>name. boundedBySeparators name (normalizeSeparators p)) (map fst layer_map)"
    by (rule detectLayerFromPath_find)
next
  assume "\<forall>name \<in> set (map fst layer_map). CHR ''/'' \<notin> set name"
  then have "find (\<lambda>name. boundedBySeparators name (normalizeSeparators p)) (map fst layer_map)
     = find (\<lambda>name. name \<in> set (interiorSegments (normalizeSeparators p))) (map fst layer_map)"
    by (intro find_cong) (auto simp: segment_iff)
  then show "detectLayerFromPath p layer_map
     = find (\<lambda>name. name \<in> set (interiorSegments (normalizeSeparators p))) (map fst layer_map)"
    by (simp add: detectLayerFromPath_find)
next
  assume "detectLayerFromPath (filePath ctx) (layers (architecture ctx)) = None"
  then show "execute (createLayerImportBoundaryRule P) ctx = \<lparr>violations = [], passed = True\<rparr>"
    by (simp add: createLayerImportBoundaryRule_def layerImportBoundary_execute_def
        emptyResult_def)
qed

theorem detectLayerFromPath_first_bounded_segment_witness:
  "detectLayerFromPath windowsPath sampleLayers = Some ''ui''
   \<and> find (\<lambda>name. name \<in> set (interiorSegments (normalizeSeparators windowsPath)))
        (map fst sampleLayers) = Some ''ui''
   \<and> detectLayerFromPath (filePath unlayeredContext) (layers (architecture unlayeredContext))
        = None
   \<and> execute (createLayerImportBoundaryRule (platformWith fooTree)) unlayeredContext
        = \<lparr>violations = [], passed = True\<rparr>"
proof -
  have names: "\<forall>name \<in> set (map fst sampleLayers). CHR ''/'' \<notin> set name"
    by (simp add: sampleLayers_def)
  have none: "detectLayerFromPath (filePath unlayeredContext)
      (layers (architecture unlayeredContext)) = None"
    by (simp add: unlayeredContext_def fooContext_def sampleLayers_def detectLayerFromPath_def
        normalizeSeparators_def backslash_def startsWith_def)
  have some: "detectLayerFromPath windowsPath sampleLayers = Some ''ui''"
    by (simp add: windowsPath_def sampleLayers_def detectLayerFromPath_def
        normalizeSeparators_def backslash_def startsWith_def)
  note t = detectLayerFromPath_first_bounded_segment
             [of windowsPath sampleLayers unlayeredContext "platformWith fooTree"]
  from t names have segs:
    "detectLayerFromPath windowsPath sampleLayers
       = find (\<lambda>name. name \<in> set (interiorSegments (normalizeSeparators windowsPath)))
           (map fst sampleLayers)"
    by blast
  from t none have pass:
    "execute (createLayerImportBoundaryRule (platformWith fooTree)) unlayeredContext
       = \<lparr>violations = [], passed = True\<rparr>"
    by blast
  show ?thesis
    using some segs pass none by simp
qed

text \<open>
  Claim C7.  Each of the four rules, run on any context whose configuration has the
  rule's toggle disabled (a value that is not truthy), returns the empty list of
  violations and \<open>passed = true\<close>; nothing of the file, its imports or the import graph is
  read.
\<close>

theorem disabled_rule_returns_empty_passing_result:
  "(\<not> truthy (enforceFeatureBoundaries (rules (architecture ctx))) \<longrightarrow>
      execute (createLayerImportBoundaryRule P) ctx = \<lparr>violations = [], passed = True\<rparr>)
   \<and> (\<not> truthy (noBusinessLogicInComponents (rules (architecture ctx))) \<longrightarrow>
      execute (createBusinessLogicInComponentsRule P) ctx
        = \<lparr>violations = [], passed = True\<rparr>)
   \<and> (\<not> truthy (noDataFetchingInUI (rules (architecture ctx))) \<longrightarrow>
      execute (createDataFetchingInUIRule P) ctx = \<lparr>violations = [], passed = True\<rparr>)
   \<and> (\<not> truthy (noCircularLayerDeps (rules (architecture ctx))) \<longrightarrow>
      execute createCircularDependencyRule ctx = \<lparr>violations = [], passed = True\<rparr>)"
  by (simp add: business_off fetching_off boundary_off circular_off)

text \<open>The file of the example violates the boundary (one violation with the toggle on) and
  gets the empty passing result from every rule with the toggles off.\<close>

theorem disabled_rule_returns_empty_passing_result_witness:
  "\<not> truthy (enforceFeatureBoundaries (rules (architecture (fooContext (JBool False) None))))
   \<and> execute (createLayerImportBoundaryRule (platformWith fooTree))
         (fooContext (JBool False) None)
       = \<lparr>violations = [], passed = True\<rparr>
   \<and> execute (createBusinessLogicInComponentsRule (platformWith fooTree))
         (fooContext (JBool False) None)
       = \<lparr>violations = [], passed = True\<rparr>
   \<and> execute (createDataFetchingInUIRule (platformWith fooTree))
         (fooContext (JBool False) None)
       = \<lparr>violations = [], passed = True\<rparr>
   \<and> execute createCircularDependencyRule (fooContext (JBool False) None)
       = \<lparr>violations = [], passed = True\<rparr>
   \<and> length (violations (execute (createLayerImportBoundaryRule (platformWith fooTree))
        (fooContext (JBool True) None))) = 1"
  using disabled_rule_returns_empty_passing_result
          [of "fooContext (JBool False) None" "platformWith fooTree"]
        fooContext_boundary_on
  by (simp add: fooContext_def togglesAll_def)

text \<open>
  Claim C9.  For a document that \<open>validateArchitectureConfig\<close> accepts, every toggle that
  is absent from the document (no \<open>rules\<close> section, or a \<open>rules\<close> mapping without the key)
  is \<open>false\<close> in the validated configuration, and the rule of that toggle returns the
  empty passing result on every context with that configuration.
\<close>

theorem absent_toggle_defaults_to_false:
  assumes "validateArchitectureConfig doc = Inr arch"
  shows "(toggleAbsent doc ''noBusinessLogicInComponents'' \<longrightarrow>
            noBusinessLogicInComponents (rules arch) = JBool False \<and>
            (\<forall>P ctx. architecture ctx = arch \<longrightarrow>
               execute (createBusinessLogicInComponentsRule P) ctx
                 = \<lparr>violations = [], passed = True\<rparr>))
       \<and> (toggleAbsent doc ''noDataFetchingInUI'' \<longrightarrow>
            noDataFetchingInUI (rules arch) = JBool False \<and>
            (\<forall>P ctx. architecture ctx = arch \<longrightarrow>
               execute (createDataFetchingInUIRule P) ctx
                 = \<lparr>violations = [], passed = True\<rparr>))
       \<and> (toggleAbsent doc ''enforceFeatureBoundaries'' \<longrightarrow>
            enforceFeatureBoundaries (rules arch) = JBool False \<and>
            (\<forall>P ctx. architecture ctx = arch \<longrightarrow>
               execute (createLayerImportBoundaryRule P) ctx
                 = \<lparr>violations = [], passed = True\<rparr>))
       \<and> (toggleAbsent doc ''noCircularLayerDeps'' \<longrightarrow>
            noCircularLayerDeps (rules arch) = JBool False \<and>
            (\<forall>ctx. architecture ctx = arch \<longrightarrow>
               execute createCircularDependencyRule ctx
                 = \<lparr>violations = [], passed = True\<rparr>))"
proof -
  note r = validate_rules[OF assms]
  have 1: "toggleAbsent doc ''noBusinessLogicInComponents'' \<Longrightarrow>
      noBusinessLogicInComponents (rules arch) = JBool False"
    using r toggleOrFalse_absent[of doc "''noBusinessLogicInComponents''"] by (simp add: Let_def)
  have 2: "toggleAbsent doc ''noDataFetchingInUI'' \<Longrightarrow>
      noDataFetchingInUI (rules arch) = JBool False"
    using r toggleOrFalse_absent[of doc "''noDataFetchingInUI''"] by (simp add: Let_def)
  have 3: "toggleAbsent doc ''enforceFeatureBoundaries'' \<Longrightarrow>
      enforceFeatureBoundaries (rules arch) = JBool False"
    using r toggleOrFalse_absent[of doc "''enforceFeatureBoundaries''"] by (simp add: Let_def)
  have 4: "toggleAbsent doc ''noCircularLayerDeps'' \<Longrightarrow>
      noCircularLayerDeps (rules arch) = JBool False"
    using r toggleOrFalse_absent[of doc "''noCircularLayerDeps''"] by (simp add: Let_def)
  show ?thesis
    using 1 2 3 4 by (auto simp: business_off fetching_off boundary_off circular_off)
qed

lemma validate_documentWithoutRules:
  "validateArchitectureConfig documentWithoutRules
     = Inr \<lparr>layers = sampleLayers, rules = togglesAll (JBool False)\<rparr>"
  by (simp add: documentWithoutRules_def validateArchitectureConfig_def sampleLayers_def
      togglesAll_def toggleOrFalse_def)

theorem absent_toggle_defaults_to_false_witness:
  "validateArchitectureConfig documentWithoutRules
     = Inr (architecture (fooContext (JBool False) None))
   \<and> toggleAbsent documentWithoutRules ''noBusinessLogicInComponents''
   \<and> toggleAbsent documentWithoutRules ''noDataFetchingInUI''
   \<and> toggleAbsent documentWithoutRules ''enforceFeatureBoundaries''
   \<and> toggleAbsent documentWithoutRules ''noCircularLayerDeps''
   \<and> rules (architecture (fooContext (JBool False) None)) = togglesAll (JBool False)
   \<and> execute (createBusinessLogicInComponentsRule (platformWith fooTree))
         (fooContext (JBool False) None) = \<lparr>violations = [], passed = True\<rparr>
   \<and> execute (createDataFetchingInUIRule (platformWith fooTree))
         (fooContext (JBool False) None) = \<lparr>violations = [], passed = True\<rparr>
   \<and> execute (createLayerImportBoundaryRule (platformWith fooTree))
         (fooContext (JBool False) None) = \<lparr>violations = [], passed = True\<rparr>
   \<and> execute createCircularDependencyRule (fooContext (JBool False) None)
       = \<lparr>violations = [], passed = True\<rparr>"
proof -
  have v: "validateArchitectureConfig documentWithoutRules
      = Inr (architecture (fooContext (JBool False) None))"
    by (simp add: validate_documentWithoutRules fooContext_def)
  have a: "toggleAbsent documentWithoutRules ''noBusinessLogicInComponents''"
    "toggleAbsent documentWithoutRules ''noDataFetchingInUI''"
    "toggleAbsent documentWithoutRules ''enforceFeatureBoundaries''"
    "toggleAbsent documentWithoutRules ''noCircularLayerDeps''"
    by (simp_all add: toggleAbsent_def documentWithoutRules_def)
  have r: "rules (architecture (fooContext (JBool False) None)) = togglesAll (JBool False)"
    by (simp add: fooContext_def)
  show ?thesis
    using absent_toggle_defaults_to_false[OF v] v a r by simp
qed


section \<open>Properties of the boundary rule\<close>

lemma findImportNode_visit_found:
  "findImportNode_visit spec n found = Some r \<Longrightarrow>
     found = Some r \<or> (r \<in> set (subnodes n) \<and> importsModule r spec)"
  "findImportNode_children spec ns found = Some r \<Longrightarrow>
     found = Some r \<or> (r \<in> set (subnodes_list ns) \<and> importsModule r spec)"
proof (induction spec n found and spec ns found arbitrary: r and r
    rule: findImportNode_visit_findImportNode_children.induct)
  case (1 importPath k p cs found)
  then show ?case
    by (cases k) (auto simp: importsModule_def split: option.splits if_splits)
next
  case (2 importPath found)
  then show ?case by simp
next
  case (3 importPath c cs found)
  then show ?case by fastforce
qed

lemma findImportNode_visit_keeps:
  "found \<noteq> None \<Longrightarrow> findImportNode_visit spec n found \<noteq> None"
  "found \<noteq> None \<Longrightarrow> findImportNode_children spec ns found \<noteq> None"
proof (induction spec n found and spec ns found
    rule: findImportNode_visit_findImportNode_children.induct)
  case (1 importPath k p cs found)
  then show ?case by (cases k) (auto split: option.splits)
next
  case (2 importPath found)
  then show ?case by simp
next
  case (3 importPath c cs found)
  then show ?case by simp
qed

lemma findImportNode_visit_finds:
  "\<exists>m \<in> set (subnodes n). importsModule m spec \<Longrightarrow> findImportNode_visit spec n found \<noteq> None"
  "\<exists>m \<in> set (subnodes_list ns). importsModule m spec \<Longrightarrow>
     findImportNode_children spec ns found \<noteq> None"
proof (induction spec n found and spec ns found
    rule: findImportNode_visit_findImportNode_children.induct)
  case (1 importPath k p cs found)
  then show ?case
    by (cases k) (auto simp: importsModule_def split: option.splits)
next
  case (2 importPath found)
  then show ?case by simp
next
  case (3 importPath c cs found)
  from "3.prems" consider "\<exists>m \<in> set (subnodes c). importsModule m importPath"
    | "\<exists>m \<in> set (subnodes_list cs). importsModule m importPath"
    by auto
  then show ?case
  proof cases
    case 1
    then have "findImportNode_visit importPath c found \<noteq> None" by (rule "3.IH"(1))
    then show ?thesis using findImportNode_visit_keeps(2) by simp
  next
    case 2
    then show ?thesis using "3.IH"(2) by simp
  qed
qed

lemma extractImports_visit_sources:
  "imp \<in> set (extractImports_visit n acc) \<Longrightarrow>
     imp \<in> set acc \<or> (\<exists>m \<in> set (subnodes n). importsModule m (from_module imp))"
  "imp \<in> set (extractImports_children ns acc) \<Longrightarrow>
     imp \<in> set acc \<or> (\<exists>m \<in> set (subnodes_list ns). importsModule m (from_module imp))"
proof (induction n acc and ns acc rule: extractImports_visit_extractImports_children.induct)
  case (1 k p cs acc)
  then show ?case
    by (cases k)
      (auto simp: importsModule_def importInfoOf_def split: option.splits importClause.splits)
next
  case (2 acc)
  then show ?case by simp
next
  case (3 c cs acc)
  then show ?case by fastforce
qed

lemma extracted_import_is_found:
  assumes "imp \<in> set (extractImports tree)"
  shows "\<exists>n. findImportNode tree (from_module imp) = Some n \<and> n \<in> set (subnodes tree)
           \<and> importsModule n (from_module imp)"
proof -
  from assms have ex: "\<exists>m \<in> set (subnodes tree). importsModule m (from_module imp)"
    using extractImports_visit_sources(1)[of imp tree "[]"] by (simp add: extractImports_def)
  then obtain n where n: "findImportNode tree (from_module imp) = Some n"
    using findImportNode_visit_finds(1)[OF ex, of None] by (auto simp: findImportNode_def)
  then show ?thesis
    using findImportNode_visit_found(1)[of "from_module imp" tree None n]
    by (simp add: findImportNode_def)
qed


lemma boundaryCheckImport_appends:
  "boundaryCheckImport P ctx ln lc imp vs = vs @ boundaryCheckImport P ctx ln lc imp []"
  by (simp add: boundaryCheckImport_def Let_def split: option.splits prod.splits)

lemma boundaryLoop_concat:
  "boundaryLoop P ctx ln lc imps vs
     = vs @ concat (map (\<lambda>imp. boundaryCheckImport P ctx ln lc imp []) imps)"
proof (induction imps arbitrary: vs)
  case Nil
  then show ?case by simp
next
  case (Cons imp imps)
  show ?case
    using Cons.IH[of "boundaryCheckImport P ctx ln lc imp vs"]
      boundaryCheckImport_appends[of P ctx ln lc imp vs]
    by simp
qed

lemma detectLayer_loop_member: "detectLayer_loop np names = Some l \<Longrightarrow> l \<in> set names"
  by (induction names) (auto split: if_splits)

lemma detectLayerFromPath_config:
  assumes "detectLayerFromPath p layer_map = Some l"
  shows "\<exists>c. map_of layer_map l = Some c"
proof -
  have "l \<in> fst ` set layer_map"
    using assms detectLayer_loop_member by (fastforce simp: detectLayerFromPath_def)
  then show ?thesis by (metis map_of_eq_None_iff not_None_eq)
qed

lemma boundaryCheckImport_single:
  assumes fl: "resolvesToLayer (layers (architecture ctx)) (filePath ctx) = Some fl"
    and lc: "map_of (layers (architecture ctx)) fl = Some lc"
    and found: "findImportNode (parseTypeScript P (sourceCode ctx) (filePath ctx))
                  (from_module imp) = Some n"
  shows "boundaryCheckImport P ctx fl lc imp []
     = (if boundaryViolating P ctx imp then [boundaryViolationOf P ctx imp] else [])"
  using assms
  by (auto simp: boundaryCheckImport_def boundaryViolating_def boundaryViolationOf_def
      resolvesToLayer_def detectLayerFromImportPath_def allowedImportsOf_def Let_def
      split: option.splits prod.splits if_splits)

lemma concat_map_if_singleton:
  "concat (map (\<lambda>x. if Q x then [f x] else []) xs) = map f (filter Q xs)"
  by (induction xs) auto

lemma layerImportBoundary_violations:
  assumes on: "truthy (enforceFeatureBoundaries (rules (architecture ctx)))"
    and consistent:
      "importList ctx = extractImports (parseTypeScript P (sourceCode ctx) (filePath ctx))"
  shows "violations (layerImportBoundary_execute P ctx)
     = map (boundaryViolationOf P ctx) (filter (boundaryViolating P ctx) (importList ctx))"
proof (cases "resolvesToLayer (layers (architecture ctx)) (filePath ctx)")
  case None
  then have "filter (boundaryViolating P ctx) (importList ctx) = []"
    by (simp add: boundaryViolating_def)
  moreover from None have "violations (layerImportBoundary_execute P ctx) = []"
    by (auto simp: layerImportBoundary_execute_def resolvesToLayer_def emptyResult_def
        split: option.splits if_splits)
  ultimately show ?thesis by simp
next
  case (Some fl)
  then have d: "detectLayerFromPath (filePath ctx) (layers (architecture ctx)) = Some fl"
    and ne: "fl \<noteq> []"
    by (auto simp: resolvesToLayer_def split: option.splits if_splits)
  from detectLayerFromPath_config[OF d] obtain lc
    where lc: "map_of (layers (architecture ctx)) fl = Some lc" by blast
  have each: "\<And>imp. imp \<in> set (importList ctx) \<Longrightarrow>
      boundaryCheckImport P ctx fl lc imp []
        = (if boundaryViolating P ctx imp then [boundaryViolationOf P ctx imp] else [])"
  proof -
    fix imp assume "imp \<in> set (importList ctx)"
    then obtain n where
      "findImportNode (parseTypeScript P (sourceCode ctx) (filePath ctx)) (from_module imp)
         = Some n"
      using extracted_import_is_found consistent by metis
    then show "boundaryCheckImport P ctx fl lc imp []
        = (if boundaryViolating P ctx imp then [boundaryViolationOf P ctx imp] else [])"
      by (rule boundaryCheckImport_single[OF Some lc])
  qed
  have "violations (layerImportBoundary_execute P ctx)
      = boundaryLoop P ctx fl lc (importList ctx) []"
    using on d ne lc by (simp add: layerImportBoundary_execute_def resultOf_def)
  also have "\<dots> = concat (map (\<lambda>imp. boundaryCheckImport P ctx fl lc imp []) (importList ctx))"
    by (simp add: boundaryLoop_concat)
  also have "\<dots> = concat (map (\<lambda>imp. if boundaryViolating P ctx imp
                                      then [boundaryViolationOf P ctx imp] else [])
                          (importList ctx))"
    using each by (intro arg_cong[where f = concat] map_cong refl)
  finally show ?thesis by (simp add: concat_map_if_singleton)
qed

lemma layerImportBoundary_passed:
  "passed (layerImportBoundary_execute P ctx)
     = (violations (layerImportBoundary_execute P ctx) = [])"
  by (simp add: layerImportBoundary_execute_def emptyResult_def resultOf_def
      split: option.splits)

lemma includes_str_middle: "includes_str (a @ b @ c) b"
  using includes_str_iff by blast

lemma joinElements_strings: "joinElements (map JStr names) = names"
  by (induction names) auto

lemma boundaryMessage_names:
  "includes_str (boundaryMessage fl il allowed) (quoted fl)"
  "includes_str (boundaryMessage fl il allowed) (quoted il)"
  "includes_str (boundaryMessage fl il allowed) (''only: '' @ allowedListText allowed @ ''.'')"
proof -
  show "includes_str (boundaryMessage fl il allowed) (quoted fl)"
    unfolding boundaryMessage_def by (rule includes_str_middle)
  have "boundaryMessage fl il allowed
      = (''Layer '' @ quoted fl @ '' cannot import from '') @ quoted il
        @ (''. Import from allowed layers only: '' @ allowedListText allowed
           @ ''. Move the imported code to an allowed layer or restructure dependencies.'')"
    by (simp add: boundaryMessage_def)
  then show "includes_str (boundaryMessage fl il allowed) (quoted il)"
    using includes_str_middle by metis
  have "boundaryMessage fl il allowed
      = (''Layer '' @ quoted fl @ '' cannot import from '' @ quoted il
           @ ''. Import from allowed layers '')
        @ (''only: '' @ allowedListText allowed @ ''.'')
        @ '' Move the imported code to an allowed layer or restructure dependencies.''"
    by (simp add: boundaryMessage_def)
  then show "includes_str (boundaryMessage fl il allowed)
      (''only: '' @ allowedListText allowed @ ''.'')"
    using includes_str_middle by metis
qed

lemma unique_import_is_found:
  assumes "imp \<in> set (extractImports tree)"
    and "m \<in> set (subnodes tree)" and "importsModule m (from_module imp)"
    and "\<forall>m' \<in> set (subnodes tree). importsModule m' (from_module imp) \<longrightarrow> m' = m"
  shows "findImportNode tree (from_module imp) = Some m"
  using extracted_import_is_found[OF assms(1)] assms(4) by auto

text \<open>
  Claim C5 (amended).  With \<open>enforceFeatureBoundaries\<close> on, and the import list of the
  context being the one extracted from the file's text (as \<open>runChecks\<close> builds it), the
  violations of the boundary rule are, in order, one for each import that is relative,
  whose importing file and imported path resolve to layers that differ, the imported
  layer not being in the \<open>allowedImports\<close> of the importing layer; the rule passes
  exactly when there is no such import.  The rule finds the place of a violation by the
  module specifier: it is the start of an import declaration of the file with that
  specifier, and the import's own declaration when no other declaration has the
  specifier.  The message quotes both layers and lists the allowed layers, or \<open>none\<close>
  when there is none.
\<close>

theorem layer_import_boundary_violations:
  assumes on: "truthy (enforceFeatureBoundaries (rules (architecture ctx)))"
    and consistent:
      "importList ctx = extractImports (parseTypeScript P (sourceCode ctx) (filePath ctx))"
  shows "violations (execute (createLayerImportBoundaryRule P) ctx)
           = map (boundaryViolationOf P ctx)
               (filter (boundaryViolating P ctx) (importList ctx))
       \<and> passed (execute (createLayerImportBoundaryRule P) ctx)
           = (\<forall>imp \<in> set (importList ctx). \<not> boundaryViolating P ctx imp)
       \<and> (\<forall>imp \<in> set (importList ctx).
            \<exists>n. findImportNode (parseTypeScript P (sourceCode ctx) (filePath ctx))
                   (from_module imp) = Some n
               \<and> n \<in> set (subnodes (parseTypeScript P (sourceCode ctx) (filePath ctx)))
               \<and> importsModule n (from_module imp))
       \<and> (\<forall>imp \<in> set (importList ctx).
            \<forall>m \<in> set (subnodes (parseTypeScript P (sourceCode ctx) (filePath ctx))).
              importsModule m (from_module imp)
              \<and> (\<forall>m' \<in> set (subnodes (parseTypeScript P (sourceCode ctx) (filePath ctx))).
                    importsModule m' (from_module imp) \<longrightarrow> m' = m)
              \<longrightarrow> findImportNode (parseTypeScript P (sourceCode ctx) (filePath ctx))
                    (from_module imp) = Some m)
       \<and> (\<forall>fileLayer importedLayer allowed.
            includes_str (boundaryMessage fileLayer importedLayer allowed) (quoted fileLayer)
          \<and> includes_str (boundaryMessage fileLayer importedLayer allowed)
               (quoted importedLayer)
          \<and> includes_str (boundaryMessage fileLayer importedLayer allowed)
               (''only: '' @ allowedListText allowed @ ''.''))
       \<and> allowedListText [] = ''none''
       \<and> (\<forall>names. names \<noteq> [] \<longrightarrow> allowedListText (map JStr names) = join '', '' names)"
proof -
  have v: "violations (execute (createLayerImportBoundaryRule P) ctx)
           = map (boundaryViolationOf P ctx)
               (filter (boundaryViolating P ctx) (importList ctx))"
    using layerImportBoundary_violations[OF on consistent]
    by (simp add: createLayerImportBoundaryRule_def)
  have p: "passed (execute (createLayerImportBoundaryRule P) ctx)
           = (\<forall>imp \<in> set (importList ctx). \<not> boundaryViolating P ctx imp)"
    using layerImportBoundary_violations[OF on consistent] layerImportBoundary_passed[of P ctx]
    by (simp add: createLayerImportBoundaryRule_def filter_empty_conv)
  have f: "\<forall>imp \<in> set (importList ctx).
            \<exists>n. findImportNode (parseTypeScript P (sourceCode ctx) (filePath ctx))
                   (from_module imp) = Some n
               \<and> n \<in> set (subnodes (parseTypeScript P (sourceCode ctx) (filePath ctx)))
               \<and> importsModule n (from_module imp)"
    using extracted_import_is_found consistent by simp
  have u: "\<forall>imp \<in> set (importList ctx).
            \<forall>m \<in> set (subnodes (parseTypeScript P (sourceCode ctx) (filePath ctx))).
              importsModule m (from_module imp)
              \<and> (\<forall>m' \<in> set (subnodes (parseTypeScript P (sourceCode ctx) (filePath ctx))).
                    importsModule m' (from_module imp) \<longrightarrow> m' = m)
              \<longrightarrow> findImportNode (parseTypeScript P (sourceCode ctx) (filePath ctx))
                    (from_module imp) = Some m"
  proof (intro ballI impI)
    fix imp m
    assume i: "imp \<in> set (importList ctx)"
      and m: "m \<in> set (subnodes (parseTypeScript P (sourceCode ctx) (filePath ctx)))"
      and only: "importsModule m (from_module imp)
          \<and> (\<forall>m' \<in> set (subnodes (parseTypeScript P (sourceCode ctx) (filePath ctx))).
                importsModule m' (from_module imp) \<longrightarrow> m' = m)"
    from i consistent
    have e: "imp \<in> set (extractImports (parseTypeScript P (sourceCode ctx) (filePath ctx)))"
      by simp
    from only show "findImportNode (parseTypeScript P (sourceCode ctx) (filePath ctx))
        (from_module imp) = Some m"
      by (intro unique_import_is_found[OF e m]) blast+
  qed
  have a: "allowedListText [] = ''none''"
    by (simp add: allowedListText_def)
  have b: "\<forall>names. names \<noteq> [] \<longrightarrow> allowedListText (map JStr names) = join '', '' names"
    by (simp add: allowedListText_def joinElements_strings)
  have msg: "\<forall>fileLayer importedLayer allowed.
            includes_str (boundaryMessage fileLayer importedLayer allowed) (quoted fileLayer)
          \<and> includes_str (boundaryMessage fileLayer importedLayer allowed)
               (quoted importedLayer)
          \<and> includes_str (boundaryMessage fileLayer importedLayer allowed)
               (''only: '' @ allowedListText allowed @ ''.'')"
    using boundaryMessage_names by blast
  from v p f u msg a b show ?thesis by (intro conjI)
qed


theorem layer_import_boundary_violations_witness:
  "truthy (enforceFeatureBoundaries (rules (architecture (fooContext (JBool True) None))))
   \<and> importList (fooContext (JBool True) None)
       = extractImports (parseTypeScript (platformWith fooTree)
           (sourceCode (fooContext (JBool True) None)) (filePath (fooContext (JBool True) None)))
   \<and> map (boundaryViolationOf (platformWith fooTree) (fooContext (JBool True) None))
         (filter (boundaryViolating (platformWith fooTree) (fooContext (JBool True) None))
            (importList (fooContext (JBool True) None)))
       = [\<lparr>file_name = ''/p/src/ui/Foo.tsx'', line = 1, column = 1,
           message = boundaryMessage ''ui'' ''domain'' [JStr ''features'', JStr ''shared''],
           rule = ''layer-import-boundary''\<rparr>]
   \<and> passed (execute (createLayerImportBoundaryRule (platformWith fooTree))
         (fooContext (JBool True) None)) = False"
proof -
  have on: "truthy (enforceFeatureBoundaries
      (rules (architecture (fooContext (JBool True) None))))"
    by (simp add: fooContext_def togglesAll_def)
  have consistent: "importList (fooContext (JBool True) None)
       = extractImports (parseTypeScript (platformWith fooTree)
           (sourceCode (fooContext (JBool True) None)) (filePath (fooContext (JBool True) None)))"
    by (simp add: fooContext_def parseTypeScript_def platformWith_def)
  have p: "passed (execute (createLayerImportBoundaryRule (platformWith fooTree))
         (fooContext (JBool True) None)) = False"
    using fooContext_boundary_on layerImportBoundary_passed
    by (simp add: createLayerImportBoundaryRule_def)
  have v: "violations (execute (createLayerImportBoundaryRule (platformWith fooTree))
         (fooContext (JBool True) None))
       = map (boundaryViolationOf (platformWith fooTree) (fooContext (JBool True) None))
           (filter (boundaryViolating (platformWith fooTree) (fooContext (JBool True) None))
              (importList (fooContext (JBool True) None)))"
    using layer_import_boundary_violations[OF on consistent] by (rule conjunct1)
  show ?thesis
    using v on consistent p fooContext_boundary_on by simp
qed


text \<open>
  The claim as stated fails when a module is imported by two statements: both imports
  violate the boundary, \<open>findImportNode\<close> returns the same declaration for both (the one
  at offset 68), and both violations are placed at column 69; none is placed at the
  first import statement, which starts at offset 0.
\<close>

theorem repeated_specifier_violations_share_position:
  "truthy (enforceFeatureBoundaries (rules (architecture repeatedImportContext)))
   \<and> importList repeatedImportContext
       = extractImports (parseTypeScript (platformWith repeatedImportTree)
           (sourceCode repeatedImportContext) (filePath repeatedImportContext))
   \<and> map getStart (children repeatedImportTree) = [0, 68]
   \<and> map (\<lambda>v. (line v, column v))
         (violations (execute (createLayerImportBoundaryRule (platformWith repeatedImportTree))
            repeatedImportContext))
       = [(1, 69), (1, 69)]"
  by (simp add: createLayerImportBoundaryRule_def layerImportBoundary_execute_def
      repeatedImportContext_def fooContext_def togglesAll_def sampleLayers_def
      detectLayerFromPath_def normalizeSeparators_def backslash_def startsWith_def
      repeatedImportTree_def extractImports_def importInfoOf_def resultOf_def
      boundaryCheckImport_def isRelativeImport_def detectLayerFromImportPath_def
      platformWith_def posixResolveFromFile_def parseTypeScript_def findImportNode_def)


section \<open>The example project of two files\<close>

lemma validate_documentAllOn: "validateArchitectureConfig documentAllOn = Inr architectureAllOn"
  by (simp add: documentAllOn_def validateArchitectureConfig_def architectureAllOn_def
      togglesAll_def toggleOrFalse_def)

lemma resolve_b: "resolveImportPath (twoFilePlatform ia ib) twoFileWorld ''./b'' ''/p/a.ts'' = Some ''/p/b.ts''"
  by (simp add: resolveImportPath_def twoFilePlatform_def twoFileWorld_def posixResolveFromFile_def startsWith_def)

lemma resolve_a: "resolveImportPath (twoFilePlatform ia ib) twoFileWorld ''./a'' ''/p/b.ts'' = Some ''/p/a.ts''"
  by (simp add: resolveImportPath_def twoFilePlatform_def twoFileWorld_def posixResolveFromFile_def startsWith_def)

lemma parse_two_files [simp]:
  "parseTypeScript (twoFilePlatform ia ib) src ''/p/a.ts'' = importTree ia"
  "parseTypeScript (twoFilePlatform ia ib) src ''/p/b.ts'' = importTree ib"
  by (simp_all add: parseTypeScript_def twoFilePlatform_def)

lemma extractImports_children_importTree:
  "extractImports_children (map (\<lambda>spec. Node (ImportDeclaration (Some spec) None) 0 []) specs) acc
     = acc @ map plainImport specs"
  by (induction specs arbitrary: acc) (simp_all add: importInfoOf_def plainImport_def)

lemma extractImports_importTree [simp]:
  "extractImports (importTree specs) = map plainImport specs"
  by (simp add: extractImports_def importTree_def extractImports_children_importTree)

lemma twoFileWorld_files [simp]: "sourceFiles twoFileWorld = [''/p/a.ts'', ''/p/b.ts'']"
  "readFileSync twoFileWorld path_text = []"
  by (simp_all add: twoFileWorld_def)

lemma graph_single:
  "buildImportGraph (twoFilePlatform [''./b''] [''./a'']) twoFileWorld
     = [(''/p/a.ts'', [''/p/b.ts'']), (''/p/b.ts'', [''/p/a.ts''])]"
  by (simp add: buildImportGraph_def resolve_a resolve_b plainImport_def startsWith_def)

lemma graph_double:
  "buildImportGraph (twoFilePlatform [''./b''] [''./a'', ''./a'']) twoFileWorld
     = [(''/p/a.ts'', [''/p/b.ts'']), (''/p/b.ts'', [''/p/a.ts'', ''/p/a.ts''])]"
  by (simp add: buildImportGraph_def resolve_a resolve_b plainImport_def startsWith_def)

lemma no_layer_a [simp]:
  "detectLayerFromPath ''/p/a.ts'' (layers architectureAllOn) = None"
  "detectLayerFromPath ''/p/b.ts'' (layers architectureAllOn) = None"
  by (simp_all add: detectLayerFromPath_def architectureAllOn_def normalizeSeparators_def
      backslash_def startsWith_def)

lemma not_component_importTree [simp]: "\<not> isReactComponentFile (importTree [spec])"
  "\<not> isReactComponentFile (importTree [spec, spec2])"
  by (simp_all add: isReactComponentFile_def importTree_def isComponentFunction_def)

lemma toggles_on [simp]:
  "truthy (noCircularLayerDeps (rules architectureAllOn))"
  "truthy (enforceFeatureBoundaries (rules architectureAllOn))"
  "truthy (noDataFetchingInUI (rules architectureAllOn))"
  "truthy (noBusinessLogicInComponents (rules architectureAllOn))"
  by (simp_all add: architectureAllOn_def togglesAll_def)

lemma detect_single:
  "detectCycles [(''/p/a.ts'', [''/p/b.ts'']), (''/p/b.ts'', [''/p/a.ts''])]
    = [[''/p/a.ts'', ''/p/b.ts'', ''/p/a.ts'']]"
  by (simp add: detectCycles_def neighbors_def enter_def leave_def recordCycle_def)

lemma detect_double:
  "detectCycles [(''/p/a.ts'', [''/p/b.ts'']), (''/p/b.ts'', [''/p/a.ts'', ''/p/a.ts''])]
    = [[''/p/a.ts'', ''/p/b.ts'', ''/p/a.ts''], [''/p/a.ts'', ''/p/b.ts'', ''/p/a.ts'']]"
  by (simp add: detectCycles_def neighbors_def enter_def leave_def recordCycle_def)

lemma first_ab [simp]: "firstFileInCycle [''/p/a.ts'', ''/p/b.ts'', ''/p/a.ts''] = Some ''/p/a.ts''"
  by (simp add: firstFileInCycle_def)

lemma run_single:
  "allViolationsOf (twoFilePlatform [''./b''] [''./a'']) twoFileWorld architectureAllOn
     = [cycleViolation ''/p/a.ts'' [''/p/a.ts'', ''/p/b.ts'', ''/p/a.ts'']]"
  by (simp add: allViolationsOf_def graph_single contextFor_def executeRules_def checkEngine_def
      registerRule_def resultOf_def emptyResult_def createLayerImportBoundaryRule_def
      createBusinessLogicInComponentsRule_def createDataFetchingInUIRule_def
      createCircularDependencyRule_def layerImportBoundary_execute_def
      businessLogicInComponents_execute_def dataFetchingInUI_execute_def
      circularDependency_execute_def detect_single cycleViolation_def)

lemma graph_first_repeated:
  "buildImportGraph (twoFilePlatform [''./b'', ''./b''] [''./a'']) twoFileWorld
     = [(''/p/a.ts'', [''/p/b.ts'', ''/p/b.ts'']), (''/p/b.ts'', [''/p/a.ts''])]"
  by (simp add: buildImportGraph_def resolve_a resolve_b plainImport_def startsWith_def)

lemma detect_first_repeated:
  "detectCycles [(''/p/a.ts'', [''/p/b.ts'', ''/p/b.ts'']), (''/p/b.ts'', [''/p/a.ts''])]
    = [[''/p/a.ts'', ''/p/b.ts'', ''/p/a.ts'']]"
  by (simp add: detectCycles_def neighbors_def enter_def leave_def recordCycle_def)

lemma run_first_repeated:
  "allViolationsOf (twoFilePlatform [''./b'', ''./b''] [''./a'']) twoFileWorld architectureAllOn
     = [cycleViolation ''/p/a.ts'' [''/p/a.ts'', ''/p/b.ts'', ''/p/a.ts'']]"
  by (simp add: allViolationsOf_def graph_first_repeated contextFor_def executeRules_def
      checkEngine_def registerRule_def resultOf_def emptyResult_def
      createLayerImportBoundaryRule_def createBusinessLogicInComponentsRule_def
      createDataFetchingInUIRule_def createCircularDependencyRule_def
      layerImportBoundary_execute_def businessLogicInComponents_execute_def
      dataFetchingInUI_execute_def circularDependency_execute_def detect_first_repeated
      cycleViolation_def)

lemma run_double:
  "allViolationsOf (twoFilePlatform [''./b''] [''./a'', ''./a'']) twoFileWorld architectureAllOn
     = [cycleViolation ''/p/a.ts'' [''/p/a.ts'', ''/p/b.ts'', ''/p/a.ts''],
        cycleViolation ''/p/a.ts'' [''/p/a.ts'', ''/p/b.ts'', ''/p/a.ts'']]"
  by (simp add: allViolationsOf_def graph_double contextFor_def executeRules_def checkEngine_def
      registerRule_def resultOf_def emptyResult_def createLayerImportBoundaryRule_def
      createBusinessLogicInComponentsRule_def createDataFetchingInUIRule_def
      createCircularDependencyRule_def layerImportBoundary_execute_def
      businessLogicInComponents_execute_def dataFetchingInUI_execute_def
      circularDependency_execute_def detect_double cycleViolation_def)


section \<open>Properties of the cycle rule\<close>

lemma firstFileInCycle_Min:
  "firstFileInCycle cycle = (if cycle = [] then None else Some (Min (set cycle)))"
proof (cases "sort cycle")
  case Nil
  then have "cycle = []" by (metis length_sort length_0_conv)
  then show ?thesis by (simp add: firstFileInCycle_def)
next
  case (Cons f fs)
  then have ne: "cycle \<noteq> []" by auto
  have "sorted (f # fs)" using Cons by (metis sorted_sort)
  then have "\<forall>x \<in> set (f # fs). f \<le> x" by auto
  moreover have "set (f # fs) = set cycle" using Cons by (metis set_sort)
  ultimately have "Min (set cycle) = f"
    by (intro Min_eqI) auto
  with Cons ne show ?thesis by (simp add: firstFileInCycle_def)
qed

lemma circularLoop_filter:
  "circularLoop path_text cycles_found vs
     = vs @ map (cycleViolation path_text) (filter (smallestPathIs path_text) cycles_found)"
  by (induction cycles_found arbitrary: vs)
    (auto simp: firstFileInCycle_Min smallestPathIs_def cycleViolation_def)

lemma circularDependency_violations:
  assumes "truthy (noCircularLayerDeps (rules (architecture ctx)))"
    and "importGraph ctx = Some graph"
  shows "violations (circularDependency_execute ctx)
     = map (cycleViolation (filePath ctx)) (filter (smallestPathIs (filePath ctx)) (detectCycles graph))"
  using assms by (simp add: circularDependency_execute_def resultOf_def circularLoop_filter)

lemma dfsNeighbors_back_edges:
  "x \<in> visited s \<Longrightarrow> x \<in> recStack s \<Longrightarrow> indexOf (path s) x = Some i \<Longrightarrow>
     dfsNeighbors graph (replicate n x) s
       = s\<lparr>cycles := cycles s @ replicate n (drop i (path s) @ [x])\<rparr>"
proof (induction n arbitrary: s)
  case 0
  then show ?case by simp
next
  case (Suc n)
  let ?m = "recordCycle x s"
  have m: "?m = s\<lparr>cycles := cycles s @ [drop i (path s) @ [x]]\<rparr>"
    using Suc.prems(3) by (simp add: recordCycle_def)
  have "dfsNeighbors graph (replicate (Suc n) x) s = dfsNeighbors graph (replicate n x) ?m"
    using Suc.prems(1,2) by simp
  also have "\<dots> = ?m\<lparr>cycles := cycles ?m @ replicate n (drop i (path ?m) @ [x])\<rparr>"
    using Suc.prems by (intro Suc.IH) (simp_all add: m)
  also have "\<dots> = s\<lparr>cycles := cycles s @ replicate (Suc n) (drop i (path s) @ [x])\<rparr>"
    by (simp add: m)
  finally show ?case .
qed

lemma dfsNeighbors_finished_nodes:
  "y \<in> visited s \<Longrightarrow> y \<notin> recStack s \<Longrightarrow> dfsNeighbors graph (replicate m y) s = s"
  by (induction m) simp_all

lemma detectCycles_two_files_repeated:
  assumes ne: "x \<noteq> y"
  shows "detectCycles [(x, replicate (Suc m) y), (y, replicate (Suc n) x)]
     = replicate (Suc n) [x, y, x]"
proof -
  let ?g = "[(x, replicate (Suc m) y), (y, replicate (Suc n) x)]"
  let ?s0 = "\<lparr>cycles = [], visited = {}, recStack = {}, path = []\<rparr>"
  let ?s1 = "\<lparr>cycles = [], visited = {x}, recStack = {x}, path = [x]\<rparr>"
  let ?s2 = "\<lparr>cycles = [], visited = {y, x}, recStack = {y, x}, path = [x, y]\<rparr>"
  let ?c = "replicate (Suc n) [x, y, x]"
  let ?s3 = "\<lparr>cycles = ?c, visited = {y, x}, recStack = {y, x}, path = [x, y]\<rparr>"
  let ?s4 = "\<lparr>cycles = ?c, visited = {y, x}, recStack = {x}, path = [x]\<rparr>"
  let ?s5 = "\<lparr>cycles = ?c, visited = {y, x}, recStack = {}, path = []\<rparr>"
  have nx: "neighbors ?g x = y # replicate m y" by (simp add: neighbors_def)
  have ny: "neighbors ?g y = replicate (Suc n) x" using ne by (simp add: neighbors_def)
  have e1: "enter x ?s0 = ?s1" by (simp add: enter_def)
  have e2: "enter y ?s1 = ?s2" by (simp add: enter_def)
  have b: "dfsNeighbors ?g (replicate (Suc n) x) ?s2 = ?s3"
    using dfsNeighbors_back_edges[of x ?s2 0 ?g "Suc n"] ne by simp
  have l2: "leave y ?s3 = ?s4" using ne by (auto simp: leave_def)
  have dy: "dfs ?g y ?s1 = ?s4"
    unfolding dfs.simps ny e2 b l2 ..
  have f: "dfsNeighbors ?g (replicate m y) ?s4 = ?s4"
    using ne by (intro dfsNeighbors_finished_nodes) simp_all
  have "dfsNeighbors ?g (y # replicate m y) ?s1 = dfsNeighbors ?g (replicate m y) (dfs ?g y ?s1)"
    using ne by simp
  then have n1: "dfsNeighbors ?g (y # replicate m y) ?s1 = ?s4" by (simp only: dy f)
  have l1: "leave x ?s4 = ?s5" by (simp add: leave_def)
  have dx: "dfs ?g x ?s0 = ?s5"
    unfolding dfs.simps nx e1 n1 l1 ..
  have "dfsRoots ?g [x, y] ?s0 = dfsRoots ?g [y] (dfs ?g x ?s0)" by simp
  also have "\<dots> = ?s5" unfolding dx by simp
  finally show ?thesis by (simp add: detectCycles_def)
qed

lemma smallestPathIs_back_and_forth:
  "x \<noteq> y \<Longrightarrow> smallestPathIs p [x, y, x] \<longleftrightarrow> p = min x y"
  by (auto simp: smallestPathIs_def min_def)


lemma bmp_two_files:
  "\<forall>p \<in> nodesOf [(''/p/a.ts'', as), (''/p/b.ts'', bs)]. withinBMP p"
  if "set as \<subseteq> {''/p/b.ts''}" "set bs \<subseteq> {''/p/a.ts''}"
  using that by (auto simp: nodesOf_def withinBMP_def)


lemma cycleMessage_lists_path: "includes_str (cycleMessage cycle) (join arrow_separator cycle)"
  unfolding cycleMessage_def by (rule includes_str_middle)

text \<open>
  Claim C3 (amended).  With the toggle on and an import graph present, the violations of
  one execution of the cycle rule are, in order, one for each cycle \<open>detectCycles\<close> returns
  whose smallest path is the file of the context; each is at line 1, column 1 of that
  file and its message holds the paths of the cycle joined by arrows.  For two files
  that import each other, \<open>x\<close> being the first key of the graph and \<open>y\<close> the second,
  \<open>detectCycles\<close> returns the cycle \<open>x, y, x\<close> once for every import of \<open>x\<close> by \<open>y\<close>,
  however often \<open>x\<close> imports \<open>y\<close>: the execution for the file that sorts first gives that
  many violations, exactly one when \<open>y\<close> imports \<open>x\<close> once, and the execution for the
  other file gives none.
\<close>

theorem cycle_reported_on_smallest_file:
  assumes on: "truthy (noCircularLayerDeps (rules (architecture ctx)))"
    and g: "importGraph ctx = Some graph"
    and bmp: "\<forall>p \<in> nodesOf graph. withinBMP p"
  shows "violations (execute createCircularDependencyRule ctx)
           = map (cycleViolation (filePath ctx))
               (filter (smallestPathIs (filePath ctx)) (detectCycles graph))
       \<and> (\<forall>cycle. includes_str (cycleMessage cycle) (join arrow_separator cycle))
       \<and> (\<forall>x y m n.
             x \<noteq> y \<and> graph = [(x, replicate (Suc m) y), (y, replicate (Suc n) x)] \<longrightarrow>
               detectCycles graph = replicate (Suc n) [x, y, x]
             \<and> (filePath ctx = min x y \<longrightarrow>
                  violations (execute createCircularDependencyRule ctx)
                    = replicate (Suc n) (cycleViolation (min x y) [x, y, x]))
             \<and> (filePath ctx \<noteq> min x y \<longrightarrow>
                  violations (execute createCircularDependencyRule ctx) = []))"
proof -
  have v: "violations (execute createCircularDependencyRule ctx)
           = map (cycleViolation (filePath ctx))
               (filter (smallestPathIs (filePath ctx)) (detectCycles graph))"
    using circularDependency_violations[OF on g] by (simp add: createCircularDependencyRule_def)
  have two: "\<And>x y m n. x \<noteq> y \<Longrightarrow>
      graph = [(x, replicate (Suc m) y), (y, replicate (Suc n) x)] \<Longrightarrow>
      detectCycles graph = replicate (Suc n) [x, y, x]
      \<and> violations (execute createCircularDependencyRule ctx)
          = (if filePath ctx = min x y
             then replicate (Suc n) (cycleViolation (min x y) [x, y, x]) else [])"
  proof -
    fix x y :: string and m n :: nat
    assume ne: "x \<noteq> y"
      and gr: "graph = [(x, replicate (Suc m) y), (y, replicate (Suc n) x)]"
    have d: "detectCycles graph = replicate (Suc n) [x, y, x]"
      unfolding gr by (rule detectCycles_two_files_repeated[OF ne])
    have "filter (smallestPathIs (filePath ctx)) (replicate (Suc n) [x, y, x])
        = (if smallestPathIs (filePath ctx) [x, y, x] then replicate (Suc n) [x, y, x] else [])"
      by (rule filter_replicate)
    then have f: "filter (smallestPathIs (filePath ctx)) (replicate (Suc n) [x, y, x])
        = (if filePath ctx = min x y then replicate (Suc n) [x, y, x] else [])"
      by (simp only: smallestPathIs_back_and_forth[OF ne])
    have "violations (execute createCircularDependencyRule ctx)
        = map (cycleViolation (filePath ctx))
            (if filePath ctx = min x y then replicate (Suc n) [x, y, x] else [])"
      unfolding v d f ..
    also have "\<dots> = (if filePath ctx = min x y
             then replicate (Suc n) (cycleViolation (min x y) [x, y, x]) else [])"
      by (cases "filePath ctx = min x y") (simp_all add: map_replicate del: replicate.simps)
    finally show "detectCycles graph = replicate (Suc n) [x, y, x]
      \<and> violations (execute createCircularDependencyRule ctx)
          = (if filePath ctx = min x y
             then replicate (Suc n) (cycleViolation (min x y) [x, y, x]) else [])"
      using d by blast
  qed
  show ?thesis
  proof (intro conjI allI impI)
    show "violations (execute createCircularDependencyRule ctx)
           = map (cycleViolation (filePath ctx))
               (filter (smallestPathIs (filePath ctx)) (detectCycles graph))"
      by (rule v)
  next
    fix cycle show "includes_str (cycleMessage cycle) (join arrow_separator cycle)"
      by (rule cycleMessage_lists_path)
  next
    fix x y m n
    assume h: "x \<noteq> y \<and> graph = [(x, replicate (Suc m) y), (y, replicate (Suc n) x)]"
    from two[of x y m n] h show "detectCycles graph = replicate (Suc n) [x, y, x]" by blast
  next
    fix x y m n
    assume h: "x \<noteq> y \<and> graph = [(x, replicate (Suc m) y), (y, replicate (Suc n) x)]"
      and f: "filePath ctx = min x y"
    from h have "violations (execute createCircularDependencyRule ctx)
          = (if filePath ctx = min x y
             then replicate (Suc n) (cycleViolation (min x y) [x, y, x]) else [])"
      using two[of x y m n] by blast
    then show "violations (execute createCircularDependencyRule ctx)
        = replicate (Suc n) (cycleViolation (min x y) [x, y, x])"
      using f by (simp del: replicate.simps)
  next
    fix x y m n
    assume h: "x \<noteq> y \<and> graph = [(x, replicate (Suc m) y), (y, replicate (Suc n) x)]"
      and f: "filePath ctx \<noteq> min x y"
    from h have "violations (execute createCircularDependencyRule ctx)
          = (if filePath ctx = min x y
             then replicate (Suc n) (cycleViolation (min x y) [x, y, x]) else [])"
      using two[of x y m n] by blast
    then show "violations (execute createCircularDependencyRule ctx) = []"
      using f by (simp del: replicate.simps)
  qed
qed

text \<open>The whole run over the two files reports the cycle once, on \<open>/p/a.ts\<close>, when they
  import each other once, and also when \<open>a\<close>, the first key, imports \<open>b\<close> twice.\<close>

theorem cycle_reported_on_smallest_file_witness:
  "truthy (noCircularLayerDeps (rules (architecture
      (contextFor (twoFilePlatform [''./b''] [''./a'']) twoFileWorld architectureAllOn
         [(''/p/a.ts'', [''/p/b.ts'']), (''/p/b.ts'', [''/p/a.ts''])] ''/p/a.ts''))))
   \<and> withinBMP ''/p/a.ts'' \<and> withinBMP ''/p/b.ts''
   \<and> violations (execute createCircularDependencyRule
        (contextFor (twoFilePlatform [''./b''] [''./a'']) twoFileWorld architectureAllOn
           [(''/p/a.ts'', [''/p/b.ts'']), (''/p/b.ts'', [''/p/a.ts''])] ''/p/a.ts''))
       = [cycleViolation ''/p/a.ts'' [''/p/a.ts'', ''/p/b.ts'', ''/p/a.ts'']]
   \<and> violations (execute createCircularDependencyRule
        (contextFor (twoFilePlatform [''./b''] [''./a'']) twoFileWorld architectureAllOn
           [(''/p/a.ts'', [''/p/b.ts'']), (''/p/b.ts'', [''/p/a.ts''])] ''/p/b.ts''))
       = []
   \<and> allViolationsOf (twoFilePlatform [''./b''] [''./a'']) twoFileWorld architectureAllOn
       = [cycleViolation ''/p/a.ts'' [''/p/a.ts'', ''/p/b.ts'', ''/p/a.ts'']]
   \<and> allViolationsOf (twoFilePlatform [''./b'', ''./b''] [''./a'']) twoFileWorld
         architectureAllOn
       = [cycleViolation ''/p/a.ts'' [''/p/a.ts'', ''/p/b.ts'', ''/p/a.ts'']]"
proof -
  let ?g = "[(''/p/a.ts'', [''/p/b.ts'']), (''/p/b.ts'', [''/p/a.ts''])]"
  let ?P = "twoFilePlatform [''./b''] [''./a'']"
  let ?ctxA = "contextFor ?P twoFileWorld architectureAllOn ?g ''/p/a.ts''"
  let ?ctxB = "contextFor ?P twoFileWorld architectureAllOn ?g ''/p/b.ts''"
  have onA: "truthy (noCircularLayerDeps (rules (architecture ?ctxA)))"
    and onB: "truthy (noCircularLayerDeps (rules (architecture ?ctxB)))"
    by (simp_all add: contextFor_def Let_def)
  have gA: "importGraph ?ctxA = Some ?g" and gB: "importGraph ?ctxB = Some ?g"
    by (simp_all add: contextFor_def Let_def)
  have fA: "filePath ?ctxA = ''/p/a.ts''" and fB: "filePath ?ctxB = ''/p/b.ts''"
    by (simp_all add: contextFor_def Let_def)
  have bmp: "\<forall>p \<in> nodesOf ?g. withinBMP p"
    by (rule bmp_two_files) simp_all
  have w: "withinBMP ''/p/a.ts''" "withinBMP ''/p/b.ts''"
    by (simp_all add: withinBMP_def)
  have shape: "''/p/a.ts'' \<noteq> ''/p/b.ts''
      \<and> ?g = [(''/p/a.ts'', replicate (Suc 0) ''/p/b.ts''),
              (''/p/b.ts'', replicate (Suc 0) ''/p/a.ts'')]"
    by simp
  have mn: "min ''/p/a.ts'' ''/p/b.ts'' = ''/p/a.ts''"
    by (simp add: min_def)
  note tA = cycle_reported_on_smallest_file[OF onA gA bmp, THEN conjunct2, THEN conjunct2,
      THEN spec, THEN spec, THEN spec, THEN spec, THEN mp, OF shape]
  have vA: "violations (execute createCircularDependencyRule ?ctxA)
       = [cycleViolation ''/p/a.ts'' [''/p/a.ts'', ''/p/b.ts'', ''/p/a.ts'']]"
    using tA fA mn by simp
  note tB = cycle_reported_on_smallest_file[OF onB gB bmp, THEN conjunct2, THEN conjunct2,
      THEN spec, THEN spec, THEN spec, THEN spec, THEN mp, OF shape]
  have vB: "violations (execute createCircularDependencyRule ?ctxB) = []"
    using tB fB mn by simp
  show ?thesis
    using onA w vA vB run_single run_first_repeated by simp
qed

text \<open>
  The claim as stated fails when an import is repeated: \<open>/p/a.ts\<close> imports \<open>./b\<close>, and
  \<open>/p/b.ts\<close> imports \<open>./a\<close> in two import statements.  The graph then has the edge from
  \<open>b\<close> to \<open>a\<close> twice, \<open>detectCycles\<close> returns the cycle twice, and the run reports two
  violations.
\<close>

theorem repeated_import_reports_cycle_twice:
  "validateArchitectureConfig documentAllOn = Inr architectureAllOn
   \<and> buildImportGraph (twoFilePlatform [''./b''] [''./a'', ''./a'']) twoFileWorld
       = [(''/p/a.ts'', [''/p/b.ts'']), (''/p/b.ts'', [''/p/a.ts'', ''/p/a.ts''])]
   \<and> allViolationsOf (twoFilePlatform [''./b''] [''./a'', ''./a'']) twoFileWorld
         architectureAllOn
       = [cycleViolation ''/p/a.ts'' [''/p/a.ts'', ''/p/b.ts'', ''/p/a.ts''],
          cycleViolation ''/p/a.ts'' [''/p/a.ts'', ''/p/b.ts'', ''/p/a.ts'']]"
  by (simp add: validate_documentAllOn graph_double run_double)

section \<open>Properties of the whole run\<close>

lemma sameProject_console: "sameProject w w' \<Longrightarrow> w' = w\<lparr>console := console w'\<rparr>"
  by (cases w, cases w') (simp add: sameProject_def)

lemma resolveImportPath_console [simp]:
  "resolveImportPath P (w\<lparr>console := c\<rparr>) = resolveImportPath P w"
  by (intro ext) (simp add: resolveImportPath_def Let_def cong: if_cong option.case_cong)

lemma relativeImports_loop_console [simp]:
  "relativeImports_loop P (w\<lparr>console := c\<rparr>) path_text imps acc
     = relativeImports_loop P w path_text imps acc"
  by (induction imps arbitrary: acc) (simp_all cong: if_cong option.case_cong)

lemma buildImportGraph_loop_console [simp]:
  "buildImportGraph_loop P (w\<lparr>console := c\<rparr>) files graph
     = buildImportGraph_loop P w files graph"
  by (induction files arbitrary: graph) simp_all

lemma contextFor_console [simp]:
  "contextFor P (w\<lparr>console := c\<rparr>) arch graph path_text = contextFor P w arch graph path_text"
  by (simp add: contextFor_def)

lemma runChecks_loop_console [simp]:
  "runChecks_loop P (w\<lparr>console := c\<rparr>) arch graph files vs
     = runChecks_loop P w arch graph files vs"
  by (induction files arbitrary: vs) simp_all

lemma allViolationsOf_console [simp]:
  "allViolationsOf P (w\<lparr>console := c\<rparr>) arch = allViolationsOf P w arch"
  by (simp add: allViolationsOf_def buildImportGraph_def)

lemma runChecks_console_fst:
  "fst (runChecks P (w\<lparr>console := c\<rparr>)) = fst (runChecks P w)"
  by (simp add: runChecks_def Let_def split: option.splits sum.splits)

lemma printedBy_console: "printedBy P (w\<lparr>console := c\<rparr>) = printedBy P w"
  by (simp add: printedBy_def runChecks_def Let_def split: option.splits sum.splits)

lemma runChecks_sameProject: "sameProject w (snd (runChecks P w))"
  by (simp add: sameProject_def runChecks_def Let_def split: option.splits sum.splits)

lemma printedBy_violations:
  assumes "configDocument w = Some doc" and "validateArchitectureConfig doc = Inr arch"
  shows "printedBy P w =
     (if allViolationsOf P w arch = [] then [AllChecksPassed]
      else FoundViolations (length (allViolationsOf P w arch))
           # map ViolationLine (allViolationsOf P w arch))"
  using assms by (simp add: printedBy_def runChecks_def Let_def)

text \<open>
  Claim C8.  The violations of a run, its outcome and the lines it prints are the same
  for two worlds that hold the same project, whatever has been printed before; and a
  run leaves the project as it was, so that a second run after it yields the same
  violations, in the same order.
\<close>

theorem runs_on_same_project_agree:
  assumes "sameProject w w'"
  shows "allViolationsOf P w' arch = allViolationsOf P w arch
       \<and> fst (runChecks P w') = fst (runChecks P w)
       \<and> printedBy P w' = printedBy P w
       \<and> sameProject w (snd (runChecks P w))"
proof -
  from assms have e: "w' = w\<lparr>console := console w'\<rparr>" by (rule sameProject_console)
  have "allViolationsOf P (w\<lparr>console := console w'\<rparr>) arch = allViolationsOf P w arch"
    by simp
  moreover have "fst (runChecks P (w\<lparr>console := console w'\<rparr>)) = fst (runChecks P w)"
    by (rule runChecks_console_fst)
  moreover have "printedBy P (w\<lparr>console := console w'\<rparr>) = printedBy P w"
    by (rule printedBy_console)
  ultimately show ?thesis using e runChecks_sameProject by metis
qed

theorem runs_on_same_project_agree_witness:
  "sameProject twoFileWorld (snd (runChecks (twoFilePlatform [''./b''] [''./a'']) twoFileWorld))
   \<and> printedBy (twoFilePlatform [''./b''] [''./a''])
         (snd (runChecks (twoFilePlatform [''./b''] [''./a'']) twoFileWorld))
       = [FoundViolations 1,
          ViolationLine (cycleViolation ''/p/a.ts'' [''/p/a.ts'', ''/p/b.ts'', ''/p/a.ts''])]
   \<and> printedBy (twoFilePlatform [''./b''] [''./a'']) twoFileWorld
       = [FoundViolations 1,
          ViolationLine (cycleViolation ''/p/a.ts'' [''/p/a.ts'', ''/p/b.ts'', ''/p/a.ts''])]"
proof -
  let ?P = "twoFilePlatform [''./b''] [''./a'']"
  have s: "sameProject twoFileWorld (snd (runChecks ?P twoFileWorld))"
    by (rule runChecks_sameProject)
  have c: "configDocument twoFileWorld = Some documentAllOn"
    by (simp add: twoFileWorld_def)
  have p: "printedBy ?P twoFileWorld
       = [FoundViolations 1,
          ViolationLine (cycleViolation ''/p/a.ts'' [''/p/a.ts'', ''/p/b.ts'', ''/p/a.ts''])]"
    using printedBy_violations[OF c validate_documentAllOn, of ?P] by (simp add: run_single)
  show ?thesis
    using runs_on_same_project_agree[OF s, of ?P architectureAllOn] s p by simp
qed






section \<open>Properties of the cycle detector\<close>

lemma frame_refl: "frame graph s s"
  by (simp add: frame_def)

lemma frame_trans: "frame graph s t \<Longrightarrow> frame graph t u \<Longrightarrow> frame graph s u"
  unfolding frame_def by (elim conjE exE) (rule conjI | simp | fastforce)+

lemma frame_wfState: "frame graph s s' \<Longrightarrow> wfState graph s \<Longrightarrow> wfState graph s'"
  by (auto simp: frame_def wfState_def)

lemma isPathIn_snoc:
  "isPathIn graph (xs @ [y])
     \<longleftrightarrow> isPathIn graph xs \<and> (xs = [] \<or> y \<in> set (neighbors graph (last xs)))"
  by (induction graph xs rule: isPathIn.induct) auto

lemma isPathIn_drop: "isPathIn graph xs \<Longrightarrow> isPathIn graph (drop i xs)"
proof (induction graph xs arbitrary: i rule: isPathIn.induct)
  case (1 graph)
  then show ?case by simp
next
  case (2 graph x)
  then show ?case by (cases i) simp_all
next
  case (3 graph x y rest)
  then show ?case by (cases i) simp_all
qed

lemma indexOf_Some:
  "x \<in> set xs \<Longrightarrow> \<exists>i. indexOf xs x = Some i \<and> i < length xs \<and> xs ! i = x"
  by (induction xs) auto

lemma indexOf_last:
  "distinct (xs @ [x]) \<Longrightarrow> indexOf (xs @ [x]) x = Some (length xs)"
  by (induction xs) auto

lemma wfState_enter:
  assumes "wfState graph s" and "n \<notin> visited s"
    and "path s = [] \<or> n \<in> set (neighbors graph (last (path s)))"
  shows "wfState graph (enter n s)"
  using assms by (auto simp: wfState_def enter_def isPathIn_snoc)

lemma recordCycle_frame:
  assumes wf: "wfState graph s" and ne: "path s \<noteq> []"
    and edge: "nb \<in> set (neighbors graph (last (path s)))" and on: "nb \<in> recStack s"
  shows "frame graph s (recordCycle nb s)"
    and "\<exists>c. cycles (recordCycle nb s) = cycles s @ [c]"
proof -
  from on wf have "nb \<in> set (path s)" by (simp add: wfState_def)
  then obtain i where i: "indexOf (path s) nb = Some i" "i < length (path s)" "path s ! i = nb"
    using indexOf_Some by blast
  let ?c = "drop i (path s) @ [nb]"
  have rc: "recordCycle nb s = s\<lparr>cycles := cycles s @ [?c]\<rparr>"
    using i by (simp add: recordCycle_def)
  have d: "drop i (path s) \<noteq> []" using i by simp
  have "hd ?c = nb" using i d by (simp add: hd_drop_conv_nth)
  moreover have "distinct (drop i (path s))" using wf by (simp add: wfState_def)
  moreover have "isPathIn graph ?c"
    using wf edge d i by (simp add: isPathIn_snoc isPathIn_drop wfState_def)
  moreover have "2 \<le> length ?c" using i by simp
  ultimately have "isSimpleCycle graph ?c"
    using d by (simp add: isSimpleCycle_def)
  then show "frame graph s (recordCycle nb s)" by (simp add: rc frame_def)
  show "\<exists>c. cycles (recordCycle nb s) = cycles s @ [c]" by (simp add: rc)
qed

lemma dfs_frame:
  "wfState graph s \<Longrightarrow> n \<notin> visited s \<Longrightarrow>
     path s = [] \<or> n \<in> set (neighbors graph (last (path s))) \<Longrightarrow>
     frame graph s (dfs graph n s) \<and> n \<in> visited (dfs graph n s)"
  "wfState graph s \<Longrightarrow> path s \<noteq> [] \<Longrightarrow> set ns \<subseteq> set (neighbors graph (last (path s))) \<Longrightarrow>
     frame graph s (dfsNeighbors graph ns s)"
proof (induction graph n s and graph ns s rule: dfs_dfsNeighbors.induct)
  case (1 graph n s)
  let ?s1 = "enter n s"
  let ?s2 = "dfsNeighbors graph (neighbors graph n) ?s1"
  have wf1: "wfState graph ?s1" using "1.prems" by (rule wfState_enter)
  have "frame graph ?s1 ?s2"
    using "1.IH"[OF wf1] by (simp add: enter_def)
  moreover have "n \<notin> recStack s" using "1.prems" by (auto simp: wfState_def)
  ultimately show ?case
    by (auto simp: frame_def enter_def leave_def)
next
  case (2 graph s)
  then show ?case by (simp add: frame_refl)
next
  case (3 graph neighbor rest s)
  from "3.prems" have edge: "neighbor \<in> set (neighbors graph (last (path s)))"
    and rest: "set rest \<subseteq> set (neighbors graph (last (path s)))" by auto
  show ?case
  proof (cases "neighbor \<notin> visited s")
    case True
    have f1: "frame graph s (dfs graph neighbor s)"
      using "3.IH"(1)[OF True "3.prems"(1) True] edge by simp
    then have p: "path (dfs graph neighbor s) = path s" by (simp add: frame_def)
    have "frame graph (dfs graph neighbor s) (dfsNeighbors graph rest (dfs graph neighbor s))"
      using "3.IH"(2)[OF True frame_wfState[OF f1 "3.prems"(1)]] "3.prems"(2) rest p by simp
    with f1 True show ?thesis by (simp add: frame_trans[of graph s "dfs graph neighbor s"])
  next
    case False
    show ?thesis
    proof (cases "neighbor \<in> recStack s")
      case True
      have f1: "frame graph s (recordCycle neighbor s)"
        using recordCycle_frame(1)[OF "3.prems"(1,2) edge True] .
      then have p: "path (recordCycle neighbor s) = path s" by (simp add: frame_def)
      have "frame graph (recordCycle neighbor s)
          (dfsNeighbors graph rest (recordCycle neighbor s))"
        using "3.IH"(3)[OF False True frame_wfState[OF f1 "3.prems"(1)]] "3.prems"(2) rest p
        by simp
      with f1 False True show ?thesis
        by (simp add: frame_trans[of graph s "recordCycle neighbor s"])
    next
      case notOn: False
      have "frame graph s (dfsNeighbors graph rest s)"
        using "3.IH"(4)[OF False notOn "3.prems"(1,2)] rest by simp
      with False notOn show ?thesis by simp
    qed
  qed
qed

lemma frame_cycles_subset: "frame graph s s' \<Longrightarrow> set (cycles s) \<subseteq> set (cycles s')"
  by (auto simp: frame_def)

lemma frame_finished: "frame graph s s' \<Longrightarrow> finished s \<subseteq> finished s'"
  by (auto simp: frame_def finished_def)

lemma frame_selfLoops:
  assumes "frame graph s s'" and "visited s' = visited s" and "selfLoopsRecorded graph s"
  shows "selfLoopsRecorded graph s'"
  using assms by (auto simp: frame_def selfLoopsRecorded_def)

lemma recordCycle_self:
  assumes wf: "wfState graph s" and ne: "path s \<noteq> []"
  shows "[last (path s), last (path s)] \<in> set (cycles (recordCycle (last (path s)) s))"
proof -
  obtain xs where xs: "path s = xs @ [last (path s)]"
    using ne by (metis append_butlast_last_id)
  have "distinct (xs @ [last (path s)])" using wf xs by (simp add: wfState_def)
  then have "indexOf (xs @ [last (path s)]) (last (path s)) = Some (length xs)"
    by (rule indexOf_last)
  then have "indexOf (path s) (last (path s)) = Some (length xs)" using xs by simp
  moreover have "drop (length xs) (path s) = [last (path s)]" using xs by (metis append_eq_conv_conj)
  ultimately show ?thesis by (simp add: recordCycle_def)
qed

lemma dfs_selfLoops:
  "wfState graph s \<Longrightarrow> n \<notin> visited s \<Longrightarrow>
     path s = [] \<or> n \<in> set (neighbors graph (last (path s))) \<Longrightarrow>
     selfLoopsRecorded graph s \<Longrightarrow>
     selfLoopsRecorded graph (dfs graph n s)"
  "wfState graph s \<Longrightarrow> path s \<noteq> [] \<Longrightarrow> set ns \<subseteq> set (neighbors graph (last (path s))) \<Longrightarrow>
     selfLoopsRecorded graph s \<Longrightarrow>
     selfLoopsRecorded graph (dfsNeighbors graph ns s)
     \<and> (last (path s) \<in> set ns \<longrightarrow>
          [last (path s), last (path s)] \<in> set (cycles (dfsNeighbors graph ns s)))"
proof (induction graph n s and graph ns s rule: dfs_dfsNeighbors.induct)
  case (1 graph n s)
  let ?s1 = "enter n s"
  let ?s2 = "dfsNeighbors graph (neighbors graph n) ?s1"
  have wf1: "wfState graph ?s1" using "1.prems"(1-3) by (rule wfState_enter)
  have p1: "path ?s1 \<noteq> []" "last (path ?s1) = n" by (simp_all add: enter_def)
  have sl1: "selfLoopsRecorded graph ?s1"
    using "1.prems"(4) by (auto simp: selfLoopsRecorded_def enter_def)
  have ih: "selfLoopsRecorded graph ?s2"
    "n \<in> set (neighbors graph n) \<longrightarrow> [n, n] \<in> set (cycles ?s2)"
    using "1.IH"[OF wf1 p1(1) _ sl1] p1(2) by simp_all
  have "dfs graph n s = leave n ?s2" by simp
  moreover have "selfLoopsRecorded graph (leave n ?s2)"
    using ih by (auto simp: selfLoopsRecorded_def leave_def)
  ultimately show ?case by simp
next
  case (2 graph s)
  then show ?case by simp
next
  case (3 graph neighbor rest s)
  let ?l = "last (path s)"
  from "3.prems" have edge: "neighbor \<in> set (neighbors graph ?l)"
    and rest: "set rest \<subseteq> set (neighbors graph ?l)" by auto
  have lv: "?l \<in> visited s" "?l \<in> recStack s"
    using "3.prems"(1,2) by (auto simp: wfState_def)
  show ?case
  proof (cases "neighbor \<notin> visited s")
    case True
    let ?m = "dfs graph neighbor s"
    have f1: "frame graph s ?m"
      using dfs_frame(1)[OF "3.prems"(1) True] edge by simp
    then have p: "path ?m = path s" by (simp add: frame_def)
    have sm: "selfLoopsRecorded graph ?m"
      using "3.IH"(1)[OF True "3.prems"(1) True _ "3.prems"(4)] edge by simp
    have "selfLoopsRecorded graph (dfsNeighbors graph rest ?m)
        \<and> (?l \<in> set rest \<longrightarrow> [?l, ?l] \<in> set (cycles (dfsNeighbors graph rest ?m)))"
      using "3.IH"(2)[OF True frame_wfState[OF f1 "3.prems"(1)] _ _ sm] "3.prems"(2) rest p
      by simp
    moreover have "neighbor \<noteq> ?l" using True lv by auto
    ultimately show ?thesis using True by auto
  next
    case False
    show ?thesis
    proof (cases "neighbor \<in> recStack s")
      case True
      let ?m = "recordCycle neighbor s"
      have f1: "frame graph s ?m"
        using recordCycle_frame(1)[OF "3.prems"(1,2) edge True] .
      then have p: "path ?m = path s" by (simp add: frame_def)
      have sm: "selfLoopsRecorded graph ?m"
        using frame_selfLoops[OF f1 _ "3.prems"(4)] by simp
      have wfm: "wfState graph ?m" using frame_wfState[OF f1 "3.prems"(1)] .
      have ih: "selfLoopsRecorded graph (dfsNeighbors graph rest ?m)
        \<and> (?l \<in> set rest \<longrightarrow> [?l, ?l] \<in> set (cycles (dfsNeighbors graph rest ?m)))"
        using "3.IH"(3)[OF False True wfm _ _ sm] "3.prems"(2) rest p by simp
      have f2: "frame graph ?m (dfsNeighbors graph rest ?m)"
        using dfs_frame(2)[OF wfm] "3.prems"(2) rest p by simp
      have "neighbor = ?l \<Longrightarrow> [?l, ?l] \<in> set (cycles (dfsNeighbors graph rest ?m))"
        using recordCycle_self[OF "3.prems"(1,2)] frame_cycles_subset[OF f2] by auto
      with ih False True show ?thesis by auto
    next
      case notOn: False
      have "selfLoopsRecorded graph (dfsNeighbors graph rest s)
        \<and> (?l \<in> set rest \<longrightarrow> [?l, ?l] \<in> set (cycles (dfsNeighbors graph rest s)))"
        using "3.IH"(4)[OF False notOn "3.prems"(1,2) _ "3.prems"(4)] rest by simp
      moreover have "neighbor \<noteq> ?l" using notOn lv by auto
      ultimately show ?thesis using False notOn by auto
    qed
  qed
qed

lemma frame_no_new_cycles:
  assumes "frame graph s m" and "frame graph m t" and "cycles t = cycles s"
  shows "cycles m = cycles s" and "cycles t = cycles m"
proof -
  from assms(1) obtain n1 where n1: "cycles m = cycles s @ n1" by (auto simp: frame_def)
  from assms(2) obtain n2 where n2: "cycles t = cycles m @ n2" by (auto simp: frame_def)
  from n1 n2 assms(3) have "n1 @ n2 = []" by simp
  then show "cycles m = cycles s" "cycles t = cycles m" using n1 n2 by simp_all
qed

lemma closed_reach:
  assumes "\<forall>u \<in> B. set (neighbors graph u) \<subseteq> B" and "(v, w) \<in> (importEdges graph)\<^sup>*"
    and "v \<in> B"
  shows "w \<in> B"
  using assms(2,3)
proof (induction rule: rtrancl_induct)
  case base
  then show ?case by simp
next
  case (step y z)
  then show ?case using assms(1) by (auto simp: importEdges_def)
qed

lemma closedAcyclic_leave:
  assumes ca: "closedAcyclic graph s2" and nb: "set (neighbors graph n) \<subseteq> finished s2"
    and nv: "n \<in> visited s2" and nr: "n \<in> recStack s2"
  shows "closedAcyclic graph (leave n s2)"
proof -
  have fin: "finished (leave n s2) = insert n (finished s2)"
    using nv by (auto simp: finished_def leave_def)
  have closed: "\<forall>u \<in> finished s2. set (neighbors graph u) \<subseteq> finished s2"
    using ca by (simp add: closedAcyclic_def)
  have "(n, n) \<notin> (importEdges graph)\<^sup>+"
  proof
    assume "(n, n) \<in> (importEdges graph)\<^sup>+"
    then obtain v where v: "(n, v) \<in> importEdges graph" "(v, n) \<in> (importEdges graph)\<^sup>*"
      by (meson tranclD)
    then have "v \<in> finished s2" using nb by (auto simp: importEdges_def)
    then have "n \<in> finished s2" using closed_reach[OF closed v(2)] by simp
    then show False using nr by (simp add: finished_def)
  qed
  then show ?thesis
    using ca nb unfolding closedAcyclic_def fin by auto
qed

lemma dfs_closedAcyclic:
  "wfState graph s \<Longrightarrow> n \<notin> visited s \<Longrightarrow>
     path s = [] \<or> n \<in> set (neighbors graph (last (path s))) \<Longrightarrow>
     closedAcyclic graph s \<Longrightarrow> cycles (dfs graph n s) = cycles s \<Longrightarrow>
     closedAcyclic graph (dfs graph n s)"
  "wfState graph s \<Longrightarrow> path s \<noteq> [] \<Longrightarrow> set ns \<subseteq> set (neighbors graph (last (path s))) \<Longrightarrow>
     closedAcyclic graph s \<Longrightarrow> cycles (dfsNeighbors graph ns s) = cycles s \<Longrightarrow>
     closedAcyclic graph (dfsNeighbors graph ns s)
     \<and> set ns \<subseteq> finished (dfsNeighbors graph ns s)"
proof (induction graph n s and graph ns s rule: dfs_dfsNeighbors.induct)
  case (1 graph n s)
  let ?s1 = "enter n s"
  let ?s2 = "dfsNeighbors graph (neighbors graph n) ?s1"
  have wf1: "wfState graph ?s1" using "1.prems"(1-3) by (rule wfState_enter)
  have p1: "path ?s1 \<noteq> []" "last (path ?s1) = n" by (simp_all add: enter_def)
  have "finished ?s1 = finished s" using "1.prems"(2) by (auto simp: finished_def enter_def)
  then have ca1: "closedAcyclic graph ?s1" using "1.prems"(4) by (simp add: closedAcyclic_def)
  have c2: "cycles ?s2 = cycles ?s1"
    using "1.prems"(5) by (simp add: leave_def enter_def)
  have ih: "closedAcyclic graph ?s2" "set (neighbors graph n) \<subseteq> finished ?s2"
    using "1.IH"[OF wf1 p1(1) _ ca1 c2] p1(2) by simp_all
  have f: "frame graph ?s1 ?s2"
    using dfs_frame(2)[OF wf1 p1(1)] p1(2) by simp
  then have "n \<in> visited ?s2" "n \<in> recStack ?s2"
    by (auto simp: frame_def enter_def)
  then have "closedAcyclic graph (leave n ?s2)"
    using closedAcyclic_leave[OF ih] by simp
  then show ?case by simp
next
  case (2 graph s)
  then show ?case by simp
next
  case (3 graph neighbor rest s)
  let ?l = "last (path s)"
  from "3.prems" have edge: "neighbor \<in> set (neighbors graph ?l)"
    and rest: "set rest \<subseteq> set (neighbors graph ?l)" by auto
  show ?case
  proof (cases "neighbor \<notin> visited s")
    case True
    let ?m = "dfs graph neighbor s"
    let ?t = "dfsNeighbors graph rest ?m"
    have fin: "dfsNeighbors graph (neighbor # rest) s = ?t" using True by simp
    have f1: "frame graph s ?m" and nv: "neighbor \<in> visited ?m"
      using dfs_frame(1)[OF "3.prems"(1) True] edge by simp_all
    then have p: "path ?m = path s" by (simp add: frame_def)
    have wfm: "wfState graph ?m" using frame_wfState[OF f1 "3.prems"(1)] .
    have f2: "frame graph ?m ?t"
      using dfs_frame(2)[OF wfm] "3.prems"(2) rest p by simp
    have ct: "cycles ?t = cycles s" using "3.prems"(5) fin by simp
    note nn = frame_no_new_cycles[OF f1 f2 ct]
    have cm: "closedAcyclic graph ?m"
      using "3.IH"(1)[OF True "3.prems"(1) True _ "3.prems"(4) nn(1)] edge by simp
    have ih: "closedAcyclic graph ?t" "set rest \<subseteq> finished ?t"
      using "3.IH"(2)[OF True wfm _ _ cm nn(2)] "3.prems"(2) rest p by simp_all
    have "neighbor \<notin> recStack s" using True "3.prems"(1) by (auto simp: wfState_def)
    then have "neighbor \<in> finished ?m" using nv f1 by (simp add: finished_def frame_def)
    then have "neighbor \<in> finished ?t" using frame_finished[OF f2] by auto
    with ih fin show ?thesis by simp
  next
    case False
    show ?thesis
    proof (cases "neighbor \<in> recStack s")
      case True
      let ?m = "recordCycle neighbor s"
      let ?t = "dfsNeighbors graph rest ?m"
      have fin: "dfsNeighbors graph (neighbor # rest) s = ?t" using False True by simp
      have f1: "frame graph s ?m"
        using recordCycle_frame(1)[OF "3.prems"(1,2) edge True] .
      then have p: "path ?m = path s" by (simp add: frame_def)
      have wfm: "wfState graph ?m" using frame_wfState[OF f1 "3.prems"(1)] .
      have f2: "frame graph ?m ?t"
        using dfs_frame(2)[OF wfm] "3.prems"(2) rest p by simp
      have ct: "cycles ?t = cycles s" using "3.prems"(5) fin by simp
      have "cycles ?m = cycles s" using frame_no_new_cycles(1)[OF f1 f2 ct] .
      moreover obtain c where "cycles ?m = cycles s @ [c]"
        using recordCycle_frame(2)[OF "3.prems"(1,2) edge True] by blast
      ultimately have False by simp
      then show ?thesis ..
    next
      case notOn: False
      have fin: "dfsNeighbors graph (neighbor # rest) s = dfsNeighbors graph rest s"
        using False notOn by simp
      have ih: "closedAcyclic graph (dfsNeighbors graph rest s)"
        "set rest \<subseteq> finished (dfsNeighbors graph rest s)"
        using "3.IH"(4)[OF False notOn "3.prems"(1,2) _ "3.prems"(4)] rest "3.prems"(5) fin
        by simp_all
      have f: "frame graph s (dfsNeighbors graph rest s)"
        using dfs_frame(2)[OF "3.prems"(1,2)] rest by simp
      have "neighbor \<in> finished s" using False notOn by (simp add: finished_def)
      then have "neighbor \<in> finished (dfsNeighbors graph rest s)"
        using frame_finished[OF f] by auto
      with ih fin show ?thesis by simp
    qed
  qed
qed

lemma dfsRoots_frame:
  "wfState graph s \<Longrightarrow> path s = [] \<Longrightarrow>
     frame graph s (dfsRoots graph ks s) \<and> set ks \<subseteq> visited (dfsRoots graph ks s)"
proof (induction ks arbitrary: s)
  case Nil
  then show ?case by (simp add: frame_refl)
next
  case (Cons k ks)
  show ?case
  proof (cases "k \<notin> visited s")
    case True
    let ?m = "dfs graph k s"
    have f1: "frame graph s ?m" and kv: "k \<in> visited ?m"
      using dfs_frame(1)[OF Cons.prems(1) True] Cons.prems(2) by simp_all
    have ih: "frame graph ?m (dfsRoots graph ks ?m)" "set ks \<subseteq> visited (dfsRoots graph ks ?m)"
      using Cons.IH[OF frame_wfState[OF f1 Cons.prems(1)]] f1 Cons.prems(2)
      by (simp_all add: frame_def)
    have "k \<in> visited (dfsRoots graph ks ?m)" using kv ih(1) by (auto simp: frame_def)
    with ih f1 True show ?thesis by (simp add: frame_trans[of graph s ?m])
  next
    case False
    have ih: "frame graph s (dfsRoots graph ks s)" "set ks \<subseteq> visited (dfsRoots graph ks s)"
      using Cons.IH[OF Cons.prems] by simp_all
    have "k \<in> visited (dfsRoots graph ks s)" using False ih(1) by (auto simp: frame_def)
    with ih False show ?thesis by simp
  qed
qed

lemma dfsRoots_selfLoops:
  "wfState graph s \<Longrightarrow> path s = [] \<Longrightarrow> selfLoopsRecorded graph s \<Longrightarrow>
     selfLoopsRecorded graph (dfsRoots graph ks s)"
proof (induction ks arbitrary: s)
  case Nil
  then show ?case by simp
next
  case (Cons k ks)
  show ?case
  proof (cases "k \<notin> visited s")
    case True
    let ?m = "dfs graph k s"
    have f1: "frame graph s ?m"
      using dfs_frame(1)[OF Cons.prems(1) True] Cons.prems(2) by simp
    have sm: "selfLoopsRecorded graph ?m"
      using dfs_selfLoops(1)[OF Cons.prems(1) True _ Cons.prems(3)] Cons.prems(2) by simp
    have "selfLoopsRecorded graph (dfsRoots graph ks ?m)"
      using Cons.IH[OF frame_wfState[OF f1 Cons.prems(1)] _ sm] f1 Cons.prems(2)
      by (simp add: frame_def)
    with True show ?thesis by simp
  next
    case False
    then show ?thesis using Cons.IH[OF Cons.prems] by simp
  qed
qed

lemma dfsRoots_closedAcyclic:
  "wfState graph s \<Longrightarrow> path s = [] \<Longrightarrow> closedAcyclic graph s \<Longrightarrow>
     cycles (dfsRoots graph ks s) = cycles s \<Longrightarrow>
     closedAcyclic graph (dfsRoots graph ks s)"
proof (induction ks arbitrary: s)
  case Nil
  then show ?case by simp
next
  case (Cons k ks)
  show ?case
  proof (cases "k \<notin> visited s")
    case True
    let ?m = "dfs graph k s"
    have fin: "dfsRoots graph (k # ks) s = dfsRoots graph ks ?m" using True by simp
    have f1: "frame graph s ?m"
      using dfs_frame(1)[OF Cons.prems(1) True] Cons.prems(2) by simp
    have wfm: "wfState graph ?m" using frame_wfState[OF f1 Cons.prems(1)] .
    have pm: "path ?m = []" using f1 Cons.prems(2) by (simp add: frame_def)
    have f2: "frame graph ?m (dfsRoots graph ks ?m)"
      using dfsRoots_frame[OF wfm pm] by simp
    have ct: "cycles (dfsRoots graph ks ?m) = cycles s" using Cons.prems(4) fin by simp
    note nn = frame_no_new_cycles[OF f1 f2 ct]
    have cm: "closedAcyclic graph ?m"
      using dfs_closedAcyclic(1)[OF Cons.prems(1) True _ Cons.prems(3) nn(1)] Cons.prems(2)
      by simp
    show ?thesis using Cons.IH[OF wfm pm cm nn(2)] fin by simp
  next
    case False
    then show ?thesis using Cons.IH[OF Cons.prems(1-3)] Cons.prems(4) by simp
  qed
qed

lemma initialState_props:
  "wfState graph initialState" "path initialState = []" "selfLoopsRecorded graph initialState"
  "closedAcyclic graph initialState" "cycles initialState = []"
  by (simp_all add: initialState_def wfState_def selfLoopsRecorded_def closedAcyclic_def
      finished_def)

lemma detectCycles_final:
  "detectCycles graph = cycles (dfsRoots graph (map fst graph) initialState)"
  by (simp add: detectCycles_def initialState_def)

lemma detectCycles_sound: "c \<in> set (detectCycles graph) \<Longrightarrow> isSimpleCycle graph c"
  using dfsRoots_frame[OF initialState_props(1,2), of graph "map fst graph"]
  by (auto simp: detectCycles_final frame_def initialState_props(5))

lemma key_of_neighbors:
  assumes that: "v \<in> set (neighbors graph u)"
  shows "u \<in> set (map fst graph)"
proof (cases "map_of graph u")
  case None
  then show ?thesis using that by (simp add: neighbors_def)
next
  case (Some ns)
  then have "(u, ns) \<in> set graph" by (rule map_of_SomeD)
  then show ?thesis by force
qed

lemma detectCycles_self_loop:
  assumes "n \<in> set (neighbors graph n)"
  shows "[n, n] \<in> set (detectCycles graph)"
proof -
  let ?t = "dfsRoots graph (map fst graph) initialState"
  have f: "frame graph initialState ?t" and v: "set (map fst graph) \<subseteq> visited ?t"
    using dfsRoots_frame[OF initialState_props(1,2), of graph "map fst graph"] by simp_all
  have "recStack ?t = {}" using f by (simp add: frame_def initialState_def)
  moreover have "n \<in> visited ?t" using key_of_neighbors[OF assms] v by auto
  moreover have "selfLoopsRecorded graph ?t"
    using dfsRoots_selfLoops[OF initialState_props(1,2,3)] .
  ultimately show ?thesis using assms by (simp add: selfLoopsRecorded_def detectCycles_final)
qed

lemma isPathIn_trancl:
  "isPathIn graph (x # xs @ [y]) \<Longrightarrow> (x, y) \<in> (importEdges graph)\<^sup>+"
proof (induction xs arbitrary: x)
  case Nil
  then show ?case by (auto simp: importEdges_def)
next
  case (Cons z zs)
  then have "(x, z) \<in> importEdges graph" and "(z, y) \<in> (importEdges graph)\<^sup>+"
    by (auto simp: importEdges_def)
  then show ?case by (rule trancl_into_trancl2)
qed

lemma isSimpleCycle_trancl:
  assumes "isSimpleCycle graph c"
  shows "(hd c, hd c) \<in> (importEdges graph)\<^sup>+"
proof -
  from assms have len: "2 \<le> length c" and hl: "hd c = last c" and p: "isPathIn graph c"
    by (simp_all add: isSimpleCycle_def)
  from len obtain x r where c: "c = x # r" "r \<noteq> []" by (cases c) force+
  then obtain xs y where r: "r = xs @ [y]" by (metis rev_exhaust)
  from p c r have "(x, y) \<in> (importEdges graph)\<^sup>+" using isPathIn_trancl by simp
  moreover from hl c r have "y = x" by simp
  ultimately show ?thesis using c by simp
qed

lemma detectCycles_nonempty_iff:
  "detectCycles graph \<noteq> [] \<longleftrightarrow> (\<exists>n. (n, n) \<in> (importEdges graph)\<^sup>+)"
proof
  assume "detectCycles graph \<noteq> []"
  then obtain c where "c \<in> set (detectCycles graph)" by (cases "detectCycles graph") auto
  then have "isSimpleCycle graph c" by (rule detectCycles_sound)
  then show "\<exists>n. (n, n) \<in> (importEdges graph)\<^sup>+" using isSimpleCycle_trancl by blast
next
  assume "\<exists>n. (n, n) \<in> (importEdges graph)\<^sup>+"
  then obtain n where n: "(n, n) \<in> (importEdges graph)\<^sup>+" by blast
  show "detectCycles graph \<noteq> []"
  proof
    assume e: "detectCycles graph = []"
    let ?t = "dfsRoots graph (map fst graph) initialState"
    have f: "frame graph initialState ?t" and v: "set (map fst graph) \<subseteq> visited ?t"
      using dfsRoots_frame[OF initialState_props(1,2), of graph "map fst graph"] by simp_all
    have r: "recStack ?t = {}" using f by (simp add: frame_def initialState_def)
    have "cycles ?t = cycles initialState"
      using e by (simp add: detectCycles_final initialState_props(5))
    then have ca: "closedAcyclic graph ?t"
      using dfsRoots_closedAcyclic[OF initialState_props(1,2,4)] by simp
    from n obtain w where "(n, w) \<in> importEdges graph" by (meson tranclD)
    then have "n \<in> set (map fst graph)" using key_of_neighbors by (auto simp: importEdges_def)
    then have "n \<in> finished ?t" using v r by (auto simp: finished_def)
    then show False using ca n by (simp add: closedAcyclic_def)
  qed
qed

text \<open>
  Claim C1 (amended).  Every cycle \<open>detectCycles\<close> returns is a simple cycle of the graph:
  a sequence of at least two file paths that starts and ends at the same node, each path
  importing the next, no other node repeated.  It returns at least one cycle exactly
  when the graph has a cycle, and it returns every self-loop, as the cycle \<open>[n, n]\<close>.
  It does not return every simple cycle.
\<close>

theorem detectCycles_returns_cycles_of_graph:
  "(\<forall>c \<in> set (detectCycles graph). isSimpleCycle graph c)
   \<and> (detectCycles graph \<noteq> [] \<longleftrightarrow> (\<exists>n. (n, n) \<in> (importEdges graph)\<^sup>+))
   \<and> (\<forall>n. n \<in> set (neighbors graph n) \<longrightarrow> [n, n] \<in> set (detectCycles graph))"
  using detectCycles_sound detectCycles_nonempty_iff detectCycles_self_loop by blast

theorem detectCycles_returns_cycles_of_graph_witness:
  "''/p/a.ts'' \<in> set (neighbors selfImportGraph ''/p/a.ts'')
   \<and> [''/p/a.ts'', ''/p/a.ts''] \<in> set (detectCycles selfImportGraph)
   \<and> detectCycles selfImportGraph = [[''/p/a.ts'', ''/p/a.ts'']]
   \<and> isSimpleCycle selfImportGraph [''/p/a.ts'', ''/p/a.ts'']
   \<and> isSimpleCycle triangleGraph [''/p/a.ts'', ''/p/b.ts'', ''/p/c.ts'', ''/p/a.ts'']"
proof -
  have n: "''/p/a.ts'' \<in> set (neighbors selfImportGraph ''/p/a.ts'')"
    by (simp add: selfImportGraph_def neighbors_def)
  have d: "detectCycles selfImportGraph = [[''/p/a.ts'', ''/p/a.ts'']]"
    by (simp add: detectCycles_def selfImportGraph_def neighbors_def enter_def leave_def
        recordCycle_def)
  have t: "detectCycles triangleGraph = [[''/p/a.ts'', ''/p/b.ts'', ''/p/c.ts'', ''/p/a.ts'']]"
    by (simp add: detectCycles_def triangleGraph_def neighbors_def enter_def leave_def
        recordCycle_def)
  from detectCycles_returns_cycles_of_graph[of selfImportGraph] n
  have m: "[''/p/a.ts'', ''/p/a.ts''] \<in> set (detectCycles selfImportGraph)" by blast
  from detectCycles_returns_cycles_of_graph[of selfImportGraph] m
  have s: "isSimpleCycle selfImportGraph [''/p/a.ts'', ''/p/a.ts'']" by blast
  from detectCycles_returns_cycles_of_graph[of triangleGraph] t
  have s3: "isSimpleCycle triangleGraph [''/p/a.ts'', ''/p/b.ts'', ''/p/c.ts'', ''/p/a.ts'']"
    by simp
  show ?thesis using n m d s s3 by simp
qed

text \<open>
  The claim as stated fails on the three files: the graph has the simple cycle from \<open>a\<close>
  to \<open>c\<close> and back, and \<open>detectCycles\<close> returns only the cycle through \<open>b\<close>: when the
  traversal comes back to \<open>a\<close> and reads its second neighbour \<open>c\<close>, that node is visited
  and no longer on the recursion stack.
\<close>

theorem detectCycles_misses_a_simple_cycle:
  "isSimpleCycle triangleGraph [''/p/a.ts'', ''/p/c.ts'', ''/p/a.ts'']
   \<and> isSimpleCycle triangleGraph [''/p/c.ts'', ''/p/a.ts'', ''/p/c.ts'']
   \<and> detectCycles triangleGraph = [[''/p/a.ts'', ''/p/b.ts'', ''/p/c.ts'', ''/p/a.ts'']]"
proof -
  have "detectCycles triangleGraph = [[''/p/a.ts'', ''/p/b.ts'', ''/p/c.ts'', ''/p/a.ts'']]"
    by (simp add: detectCycles_def triangleGraph_def neighbors_def enter_def leave_def
        recordCycle_def)
  moreover have "isSimpleCycle triangleGraph [''/p/a.ts'', ''/p/c.ts'', ''/p/a.ts'']"
    by (simp add: isSimpleCycle_def triangleGraph_def neighbors_def)
  moreover have "isSimpleCycle triangleGraph [''/p/c.ts'', ''/p/a.ts'', ''/p/c.ts'']"
    by (simp add: isSimpleCycle_def triangleGraph_def neighbors_def)
  ultimately show ?thesis by simp
qed

end
